theory Spec2Isabelle
  imports Main
begin

section \<open>JavaScript values used by the verifier\<close>

text \<open>
  A thrown JavaScript error is a value carrying its message. A call that may throw
  returns \<open>js_error + 'a\<close>, with \<open>Inl\<close> for the throw.
\<close>

datatype js_error = Error (message: string)

text \<open>
  Strings are lists of characters. The helpers below are \<open>String.prototype.startsWith\<close>,
  \<open>endsWith\<close>, \<open>includes\<close>, \<open>split\<close> with a one-character separator, and
  \<open>toLowerCase\<close> on the ASCII letters.
\<close>

fun startsWith :: "string \<Rightarrow> string \<Rightarrow> bool" where
  "startsWith s [] = True"
| "startsWith [] (p # ps) = False"
| "startsWith (c # cs) (p # ps) = (c = p \<and> startsWith cs ps)"

definition endsWith :: "string \<Rightarrow> string \<Rightarrow> bool" where
  "endsWith s p = startsWith (rev s) (rev p)"

fun includes_str :: "string \<Rightarrow> string \<Rightarrow> bool" where
  "includes_str [] p = (p = [])"
| "includes_str (c # cs) p = (startsWith (c # cs) p \<or> includes_str cs p)"

fun split_acc :: "char \<Rightarrow> string \<Rightarrow> string \<Rightarrow> string list" where
  "split_acc sep cur [] = [rev cur]"
| "split_acc sep cur (c # cs) =
     (if c = sep then rev cur # split_acc sep [] cs else split_acc sep (c # cur) cs)"

definition split :: "string \<Rightarrow> char \<Rightarrow> string list" where
  "split s sep = split_acc sep [] s"

definition lower_char :: "char \<Rightarrow> char" where
  "lower_char c =
     (case map_of (zip ''ABCDEFGHIJKLMNOPQRSTUVWXYZ'' ''abcdefghijklmnopqrstuvwxyz'') c of
        Some l \<Rightarrow> l
      | None \<Rightarrow> c)"

definition toLowerCase :: "string \<Rightarrow> string" where
  "toLowerCase s = map lower_char s"

section \<open>SMTP probe (\<open>EnhancedEmailVerifier.performSmtpCheck\<close>)\<close>

text \<open>
  The part of a result object that the probe writes. The full verification result and the
  minimal object of the catch-all test both extend it.
\<close>

record probe_result =
  smtpCheck :: bool
  errors :: "string list"

text \<open>
  What the socket does during one probe, in the order in which the handlers run: data
  chunks, the socket's timeout, error and close events. When the list is used up and no
  handler has resolved the promise, the 15 second timer fires.
\<close>

datatype smtp_event = Data string | SocketTimeout | SocketError string | SocketClose

text \<open>The branch of the \<open>data\<close> handler that the accumulated buffer selects.\<close>

datatype data_action =
  SendHelo | SendMailFrom | SendRcptTo | Accept | Reject | Unexpected | Wait

definition on_data :: "string \<Rightarrow> data_action" where
  "on_data responseBuffer =
     (if includes_str responseBuffer ''220'' then SendHelo
      else if includes_str responseBuffer ''250'' \<and> \<not> includes_str responseBuffer ''MAIL FROM''
        then SendMailFrom
      else if includes_str responseBuffer ''250'' \<and> includes_str responseBuffer ''MAIL FROM''
        then SendRcptTo
      else if includes_str responseBuffer ''250'' \<and> includes_str responseBuffer ''RCPT TO''
        then Accept
      else if includes_str responseBuffer ''550'' \<or> includes_str responseBuffer ''553''
        then Reject
      else if length responseBuffer > 1000 then Unexpected
      else Wait)"

text \<open>
  The event loop of one probe: the buffer only grows, the first handler that resolves the
  promise decides, and the commands written to the socket are collected.
\<close>

fun run_events ::
  "smtp_event list \<Rightarrow> string \<Rightarrow> data_action list \<Rightarrow> 'a probe_result_scheme
     \<Rightarrow> 'a probe_result_scheme \<times> data_action list" where
  "run_events [] buf sent r =
     (r\<lparr>smtpCheck := False, errors := errors r @ [''SMTP check timed out'']\<rparr>, sent)"
| "run_events (Data d # es) buf sent r =
     (let responseBuffer = buf @ d in
      case on_data responseBuffer of
        SendHelo \<Rightarrow> run_events es responseBuffer (sent @ [SendHelo]) r
      | SendMailFrom \<Rightarrow> run_events es responseBuffer (sent @ [SendMailFrom]) r
      | SendRcptTo \<Rightarrow> run_events es responseBuffer (sent @ [SendRcptTo]) r
      | Accept \<Rightarrow> (r\<lparr>smtpCheck := True\<rparr>, sent)
      | Reject \<Rightarrow>
          (r\<lparr>smtpCheck := False,
             errors := errors r @ [''SMTP check failed: address rejected'']\<rparr>, sent)
      | Unexpected \<Rightarrow>
          (r\<lparr>smtpCheck := False,
             errors := errors r @ [''SMTP check failed: unexpected response'']\<rparr>, sent)
      | Wait \<Rightarrow> run_events es responseBuffer sent r)"
| "run_events (SocketTimeout # es) buf sent r =
     (r\<lparr>smtpCheck := False, errors := errors r @ [''SMTP connection timed out'']\<rparr>, sent)"
| "run_events (SocketError msg # es) buf sent r =
     (r\<lparr>smtpCheck := False,
        errors := errors r @ [''SMTP connection error: '' @ msg]\<rparr>, sent)"
| "run_events (SocketClose # es) buf sent r =
     (r\<lparr>smtpCheck := False,
        errors := errors r @ [''SMTP connection closed unexpectedly'']\<rparr>, sent)"

text \<open>
  Creating or connecting the socket may throw inside the promise executor; the executor's
  own handler records it. Otherwise the events run.
\<close>

datatype probe_script = SetupThrows js_error | Events "smtp_event list"

fun run_probe :: "probe_script \<Rightarrow> 'a probe_result_scheme \<Rightarrow> 'a probe_result_scheme" where
  "run_probe (SetupThrows e) r =
     r\<lparr>smtpCheck := False, errors := errors r @ [''SMTP check failed: '' @ message e]\<rparr>"
| "run_probe (Events es) r = fst (run_events es [] [] r)"


section \<open>Rate governor (\<open>utils/ipRotation.js\<close>)\<close>

text \<open>
  The Redis client of the governor. A stored value is an integer (written by \<open>INCR\<close> or
  by \<open>SET\<close> of a number) or another string. \<open>isReady = False\<close> is the closed client,
  whose commands reject. Expiry is not modelled: a state holds the keys alive at that
  moment, so a run of calls on it is a run within one counter window.
\<close>

datatype redis_value = IntVal int | StrVal string

record redis =
  isReady :: bool
  kv :: "string \<rightharpoonup> redis_value"

record limit_config =
  maxPerMinute :: int
  maxPerHour :: int

text \<open>
  The module-level configuration: the table of limits with its \<open>default\<close> row, and the
  pool of addresses read from \<open>process.env.IP_POOL\<close>.
\<close>

record governor_config =
  rateLimits :: "string \<rightharpoonup> limit_config"
  ipPool :: "string list"

definition domainRateLimits :: "string \<rightharpoonup> limit_config" where
  "domainRateLimits = map_of
     [(''gmail.com'', \<lparr>maxPerMinute = 20, maxPerHour = 250\<rparr>),
      (''yahoo.com'', \<lparr>maxPerMinute = 10, maxPerHour = 150\<rparr>),
      (''hotmail.com'', \<lparr>maxPerMinute = 15, maxPerHour = 200\<rparr>),
      (''outlook.com'', \<lparr>maxPerMinute = 15, maxPerHour = 200\<rparr>),
      (''aol.com'', \<lparr>maxPerMinute = 10, maxPerHour = 150\<rparr>),
      (''default'', \<lparr>maxPerMinute = 30, maxPerHour = 300\<rparr>)]"

definition limitConfig :: "governor_config \<Rightarrow> string \<Rightarrow> limit_config option" where
  "limitConfig cfg domainKey =
     (case rateLimits cfg domainKey of
        Some c \<Rightarrow> Some c
      | None \<Rightarrow> rateLimits cfg ''default'')"

text \<open>
  \<open>parseInt((await redisClient.get(key)) || 0)\<close>: a missing key and the empty string
  count as 0, an integer is itself, any other string is \<open>NaN\<close> (here \<open>None\<close>), which
  every comparison answers with false.
\<close>

definition count_of :: "redis \<Rightarrow> string \<Rightarrow> int option" where
  "count_of rc key =
     (case kv rc key of
        None \<Rightarrow> Some 0
      | Some (IntVal n) \<Rightarrow> Some n
      | Some (StrVal s) \<Rightarrow> (if s = [] then Some 0 else None))"

definition reached :: "int option \<Rightarrow> int \<Rightarrow> bool" where
  "reached c limit = (case c of Some n \<Rightarrow> n \<ge> limit | None \<Rightarrow> False)"

text \<open>\<open>INCR\<close> creates the key at 1 and rejects on a value that is not an integer.\<close>

definition incr :: "redis \<Rightarrow> string \<Rightarrow> redis option" where
  "incr rc key =
     (case kv rc key of
        None \<Rightarrow> Some (rc\<lparr>kv := (kv rc)(key \<mapsto> IntVal 1)\<rparr>)
      | Some (IntVal n) \<Rightarrow> Some (rc\<lparr>kv := (kv rc)(key \<mapsto> IntVal (n + 1))\<rparr>)
      | Some (StrVal s) \<Rightarrow> None)"

text \<open>The remainder operator \<open>%\<close> on integers takes the sign of the dividend.\<close>

definition js_rem :: "int \<Rightarrow> int \<Rightarrow> int" where
  "js_rem a b = (if a \<ge> 0 then a mod \<bar>b\<bar> else - ((- a) mod \<bar>b\<bar>))"

text \<open>\<open>ipPool[i]\<close>: \<open>undefined\<close> (here \<open>None\<close>) outside the array.\<close>

definition pool_at :: "string list \<Rightarrow> int \<Rightarrow> string option" where
  "pool_at pool i = (if 0 \<le> i \<and> i < int (length pool) then Some (pool ! nat i) else None)"

definition minuteKey :: "string \<Rightarrow> string" where
  "minuteKey domain = ''smtp:'' @ toLowerCase domain @ '':minute''"

definition hourKey :: "string \<Rightarrow> string" where
  "hourKey domain = ''smtp:'' @ toLowerCase domain @ '':hour''"

text \<open>
  The round-robin step at the end of \<open>getNextIp\<close>. A stored index that is not a number
  gives \<open>NaN\<close>, which is written back as the string \<open>NaN\<close> and selects no address; so
  does an empty pool.
\<close>

definition next_index :: "governor_config \<Rightarrow> redis \<Rightarrow> string option \<times> redis" where
  "next_index cfg rc =
     (case count_of rc ''smtp:ip_index'' of
        None \<Rightarrow> (None, rc\<lparr>kv := (kv rc)(''smtp:ip_index'' \<mapsto> StrVal ''NaN'')\<rparr>)
      | Some currentIndex \<Rightarrow>
          if ipPool cfg = []
          then (None, rc\<lparr>kv := (kv rc)(''smtp:ip_index'' \<mapsto> StrVal ''NaN'')\<rparr>)
          else
            (pool_at (ipPool cfg) currentIndex,
             rc\<lparr>kv := (kv rc)(''smtp:ip_index'' \<mapsto>
                IntVal (js_rem (currentIndex + 1) (int (length (ipPool cfg)))))\<rparr>))"

text \<open>
  \<open>getNextIp\<close>. Only the two rate-limit errors leave the function; every other failure
  inside it (closed client, missing limits row, \<open>INCR\<close> on a non-integer) is caught and
  answered with \<open>ipPool[0]\<close>, keeping what was written before the failure.
\<close>

definition getNextIp ::
  "governor_config \<Rightarrow> redis \<Rightarrow> string \<Rightarrow> (js_error + string option) \<times> redis" where
  "getNextIp cfg rc domain =
     (case limitConfig cfg (toLowerCase domain) of
        None \<Rightarrow> (Inr (pool_at (ipPool cfg) 0), rc)
      | Some lim \<Rightarrow>
          if \<not> isReady rc then (Inr (pool_at (ipPool cfg) 0), rc)
          else if reached (count_of rc (minuteKey domain)) (maxPerMinute lim)
            then (Inl (Error (''RATE_LIMIT_MINUTE:'' @ domain)), rc)
          else if reached (count_of rc (hourKey domain)) (maxPerHour lim)
            then (Inl (Error (''RATE_LIMIT_HOUR:'' @ domain)), rc)
          else
            (case incr rc (minuteKey domain) of
               None \<Rightarrow> (Inr (pool_at (ipPool cfg) 0), rc)
             | Some rc1 \<Rightarrow>
                 (case incr rc1 (hourKey domain) of
                    None \<Rightarrow> (Inr (pool_at (ipPool cfg) 0), rc1)
                  | Some rc2 \<Rightarrow>
                      (case next_index cfg rc2 of (ip, rc3) \<Rightarrow> (Inr ip, rc3)))))"

text \<open>A key that \<open>INCR\<close> accepts: absent, or holding an integer.\<close>

definition numeric :: "redis \<Rightarrow> string \<Rightarrow> bool" where
  "numeric rc key = (case kv rc key of Some (StrVal s) \<Rightarrow> False | _ \<Rightarrow> True)"

text \<open>Sequential calls for one domain on the same store, oldest outcome first.\<close>

fun acquire_many ::
  "governor_config \<Rightarrow> redis \<Rightarrow> string \<Rightarrow> nat \<Rightarrow> (js_error + string option) list \<times> redis" where
  "acquire_many cfg rc domain 0 = ([], rc)"
| "acquire_many cfg rc domain (Suc n) =
     (case getNextIp cfg rc domain of
        (out, rc1) \<Rightarrow>
          (case acquire_many cfg rc1 domain n of (outs, rc2) \<Rightarrow> (out # outs, rc2)))"

text \<open>\<open>isDomainBlocked\<close>: false when the client is not ready.\<close>

definition isDomainBlocked :: "redis \<Rightarrow> string \<Rightarrow> bool" where
  "isDomainBlocked rc domain =
     (if \<not> isReady rc then False
      else kv rc (''smtp:blocked:'' @ toLowerCase domain) = Some (StrVal ''blocked''))"

section \<open>\<open>performSmtpCheck\<close>: acquiring an address, then the probe\<close>

text \<open>
  The handler around the whole of \<open>performSmtpCheck\<close>, and the function itself. The
  address written after \<open>RCPT TO\<close> and the host that the socket connects to do not
  enter the decision: the script of the socket stands for them. The monitoring counters
  of \<open>reportSuccessfulVerification\<close> and \<open>reportFailedVerification\<close> are not tracked.
\<close>

definition smtp_catch :: "js_error \<Rightarrow> 'a probe_result_scheme \<Rightarrow> 'a probe_result_scheme" where
  "smtp_catch error r =
     (let r1 = r\<lparr>smtpCheck := False,
                 errors := errors r @ [''SMTP check error: '' @ message error]\<rparr>
      in if startsWith (message error) ''RATE_LIMIT'' then r1\<lparr>smtpCheck := True\<rparr> else r1)"

definition performSmtpCheck ::
  "governor_config \<Rightarrow> probe_script \<Rightarrow> redis \<Rightarrow> string \<Rightarrow> 'a probe_result_scheme
     \<Rightarrow> 'a probe_result_scheme \<times> redis" where
  "performSmtpCheck cfg script rc domain r =
     (case getNextIp cfg rc domain of
        (Inl error, rc1) \<Rightarrow> (smtp_catch error r, rc1)
      | (Inr ip, rc1) \<Rightarrow> (run_probe script r, rc1))"

section \<open>Verification result (\<open>utils/enhancedEmailVerifier.js\<close>)\<close>

text \<open>
  The result object of \<open>EnhancedEmailVerifier.verify\<close>. The two clock fields
  (\<open>timestamp\<close>, \<open>processingTimeMs\<close>) are left out. An absent property of \<open>details\<close>
  is \<open>None\<close>. The fields \<open>email\<close> and \<open>domain\<close> carry a prefix, their names being
  used for the arguments of the functions.
\<close>

record mx_record =
  exchange :: string
  priority :: int

record syntax_details =
  usernameLength :: nat
  domainParts :: nat
  tld :: string

record mx_details =
  records :: "mx_record list"
  count :: nat

record spam_trap_indicators =
  randomUsername :: bool
  newDomain :: bool
  suspiciousTxtRecords :: bool

record details =
  syntax_details :: "syntax_details option"
  mx :: "mx_details option"
  smtpBlocked :: "bool option"
  catchAll :: "bool option"
  spamTrapIndicators :: "spam_trap_indicators option"

record result = probe_result +
  result_email :: string
  isValid :: bool
  formatValid :: bool
  hasMx :: bool
  isDisposable :: bool
  isCatchAll :: bool
  isRoleAccount :: bool
  isSpamTrap :: bool
  suggestion :: "string option"
  result_domain :: "string option"
  details :: details
  fromCache :: bool

definition initial_result :: "string \<Rightarrow> result" where
  "initial_result email =
     \<lparr>smtpCheck = False, errors = [], result_email = email, isValid = False,
      formatValid = False, hasMx = False, isDisposable = False, isCatchAll = False,
      isRoleAccount = False, isSpamTrap = False, suggestion = None, result_domain = None,
      details = \<lparr>syntax_details = None, mx = None, smtpBlocked = None, catchAll = None,
                  spamTrapIndicators = None\<rparr>,
      fromCache = False\<rparr>"

text \<open>The object returned by the handler around the whole of \<open>verify\<close>.\<close>

record failure_result =
  failure_email :: string
  failure_isValid :: bool
  failure_errors :: "string list"

section \<open>Typo suggestion (\<open>suggestCorrection\<close>, \<open>levenshteinDistance\<close>)\<close>

text \<open>
  \<open>levenshteinDistance\<close> fills a matrix of \<open>a.length + 1\<close> rows and \<open>b.length + 1\<close>
  columns: first the first column, then the first row, then the cells row by row.
\<close>

definition set_cell :: "nat list list \<Rightarrow> nat \<Rightarrow> nat \<Rightarrow> nat \<Rightarrow> nat list list" where
  "set_cell matrix i j v = matrix[i := (matrix ! i)[j := v]]"

definition fill_cell :: "string \<Rightarrow> string \<Rightarrow> nat \<Rightarrow> nat \<Rightarrow> nat list list \<Rightarrow> nat list list" where
  "fill_cell a b i j matrix =
     (let cost = (if a ! (i - 1) = b ! (j - 1) then 0 else 1) in
      set_cell matrix i j
        (min (min (matrix ! (i - 1) ! j + 1) (matrix ! i ! (j - 1) + 1))
             (matrix ! (i - 1) ! (j - 1) + cost)))"

definition levenshteinDistance :: "string \<Rightarrow> string \<Rightarrow> nat" where
  "levenshteinDistance a b =
     (if length a = 0 then length b
      else if length b = 0 then length a
      else
        (let matrix0 = replicate (length a + 1) (replicate (length b + 1) 0);
             matrix1 = fold (\<lambda>i m. set_cell m i 0 i) [0..<length a + 1] matrix0;
             matrix2 = fold (\<lambda>j m. set_cell m 0 j j) [0..<length b + 1] matrix1;
             matrix3 = fold (\<lambda>i m. fold (\<lambda>j m. fill_cell a b i j m) [1..<length b + 1] m)
                         [1..<length a + 1] matrix2
         in matrix3 ! length a ! length b))"

text \<open>The two tables of \<open>EnhancedEmailVerifier.suggestCorrection\<close>, in source order.\<close>

definition commonDomains :: "(string \<times> string list) list" where
  "commonDomains =
     [(''gmail.com'', [''gmail.com'', ''googlemail.com'']),
      (''yahoo.com'', [''yahoo.com'', ''yahoo.co.uk'', ''yahoo.ca'', ''yahoo.fr'']),
      (''hotmail.com'', [''hotmail.com'', ''outlook.com'', ''live.com'']),
      (''outlook.com'', [''outlook.com'', ''hotmail.com'']),
      (''aol.com'', [''aol.com'']),
      (''icloud.com'', [''icloud.com'', ''me.com'', ''mac.com'']),
      (''protonmail.com'', [''protonmail.com'', ''pm.me'']),
      (''gmx.com'', [''gmx.com'', ''gmx.de'']),
      (''mail.com'', [''mail.com'']),
      (''yandex.com'', [''yandex.com'', ''yandex.ru''])]"

definition corrections :: "(string \<times> string) list" where
  "corrections =
     [(''gmal.com'', ''gmail.com''), (''gamil.com'', ''gmail.com''),
      (''gnail.com'', ''gmail.com''), (''gmial.com'', ''gmail.com''),
      (''gmail.co'', ''gmail.com''), (''gmail.con'', ''gmail.com''),
      (''gmail.om'', ''gmail.com''), (''gmail.cm'', ''gmail.com''),
      (''gmaill.com'', ''gmail.com''), (''gemail.com'', ''gmail.com''),
      (''gmai.com'', ''gmail.com''), (''gmali.com'', ''gmail.com''),
      (''yahooo.com'', ''yahoo.com''), (''yaho.com'', ''yahoo.com''),
      (''yahoo.co'', ''yahoo.com''), (''yahoo.con'', ''yahoo.com''),
      (''yaho.co'', ''yahoo.com''), (''yaoo.com'', ''yahoo.com''),
      (''ymail.com'', ''yahoo.com''), (''hotmial.com'', ''hotmail.com''),
      (''hotmail.co'', ''hotmail.com''), (''hotmal.com'', ''hotmail.com''),
      (''hotmai.com'', ''hotmail.com''), (''hotmail.cm'', ''hotmail.com''),
      (''hotmail.con'', ''hotmail.com''), (''hotamail.com'', ''hotmail.com''),
      (''hotmali.com'', ''hotmail.com''), (''outlok.com'', ''outlook.com''),
      (''outook.com'', ''outlook.com''), (''outlook.co'', ''outlook.com''),
      (''outlook.con'', ''outlook.com''), (''iclod.com'', ''icloud.com''),
      (''icloud.co'', ''icloud.com'')]"

text \<open>
  The loop over \<open>Object.entries(commonDomains)\<close>: a known variant ends the search with no
  suggestion, an entry within the threshold ends it with that entry.
\<close>

definition similarityThreshold :: nat where
  "similarityThreshold = 2"

fun close_match :: "(string \<times> string list) list \<Rightarrow> string \<Rightarrow> string option" where
  "close_match [] domain = None"
| "close_match ((correctDomain, variants) # rest) domain =
     (if domain \<in> set variants then None
      else if levenshteinDistance domain correctDomain \<le> similarityThreshold
        then Some correctDomain
      else close_match rest domain)"

text \<open>
  \<open>corrections[domain]\<close> reads a property of an object literal: an own property if there
  is one, else the member of \<open>Object.prototype\<close> of that name. The members are listed
  with the text that a template literal makes of them; all of them are truthy.
\<close>

definition Object_prototype :: "(string \<times> string) list" where
  "Object_prototype =
     [(''constructor'', ''function Object() { [native code] }''),
      (''__defineGetter__'', ''function __defineGetter__() { [native code] }''),
      (''__defineSetter__'', ''function __defineSetter__() { [native code] }''),
      (''hasOwnProperty'', ''function hasOwnProperty() { [native code] }''),
      (''__lookupGetter__'', ''function __lookupGetter__() { [native code] }''),
      (''__lookupSetter__'', ''function __lookupSetter__() { [native code] }''),
      (''isPrototypeOf'', ''function isPrototypeOf() { [native code] }''),
      (''propertyIsEnumerable'', ''function propertyIsEnumerable() { [native code] }''),
      (''toString'', ''function toString() { [native code] }''),
      (''valueOf'', ''function valueOf() { [native code] }''),
      (''__proto__'', ''[object Object]''),
      (''toLocaleString'', ''function toLocaleString() { [native code] }'')]"

definition property :: "(string \<times> string) list \<Rightarrow> string \<Rightarrow> string option" where
  "property object key =
     (case map_of object key of
        Some v \<Rightarrow> Some v
      | None \<Rightarrow> map_of Object_prototype key)"

text \<open>The value that \<open>suggestCorrection\<close> assigns to \<open>result.suggestion\<close>, if any.\<close>

definition suggested :: "string \<Rightarrow> string option" where
  "suggested email =
     (case split email CHR ''@'' of
        [username, domain] \<Rightarrow>
          (case property corrections domain of
             Some corrected \<Rightarrow> Some (username @ ''@'' @ corrected)
           | None \<Rightarrow>
               (case close_match commonDomains domain of
                  Some correctDomain \<Rightarrow> Some (username @ ''@'' @ correctDomain)
                | None \<Rightarrow> None))
      | _ \<Rightarrow> None)"

definition suggestCorrection :: "string \<Rightarrow> result \<Rightarrow> result" where
  "suggestCorrection email r =
     (case suggested email of Some s \<Rightarrow> r\<lparr>suggestion := Some s\<rparr> | None \<Rightarrow> r)"

text \<open>
  \<open>EmailVerifier.suggestCorrection\<close> of \<open>utils/emailVerifier.js\<close>, the basic verifier:
  its own two tables, and the first well-known domain at distance exactly 1.
\<close>

definition EmailVerifier_commonDomains :: "string list" where
  "EmailVerifier_commonDomains =
     [''gmail.com'', ''yahoo.com'', ''hotmail.com'', ''outlook.com'', ''aol.com'',
      ''icloud.com'', ''protonmail.com'']"

definition EmailVerifier_corrections :: "(string \<times> string) list" where
  "EmailVerifier_corrections =
     [(''gmal.com'', ''gmail.com''), (''gamil.com'', ''gmail.com''),
      (''gmial.com'', ''gmail.com''), (''gmail.co'', ''gmail.com''),
      (''gmaill.com'', ''gmail.com''), (''yahooo.com'', ''yahoo.com''),
      (''yaho.com'', ''yahoo.com''), (''yahoo.co'', ''yahoo.com''),
      (''hotmial.com'', ''hotmail.com''), (''hotmal.com'', ''hotmail.com''),
      (''hotmai.com'', ''hotmail.com''), (''outlok.com'', ''outlook.com''),
      (''outook.com'', ''outlook.com'')]"

definition EmailVerifier_suggestCorrection :: "string \<Rightarrow> string option" where
  "EmailVerifier_suggestCorrection email =
     (case split email CHR ''@'' of
        [username, domain] \<Rightarrow>
          (case property EmailVerifier_corrections domain of
             Some corrected \<Rightarrow> Some (username @ ''@'' @ corrected)
           | None \<Rightarrow>
               (case find (\<lambda>correctDomain. levenshteinDistance domain correctDomain = 1)
                       EmailVerifier_commonDomains of
                  Some correctDomain \<Rightarrow> Some (username @ ''@'' @ correctDomain)
                | None \<Rightarrow> None))
      | _ \<Rightarrow> None)"

text \<open>
  The recurrence that the matrix of \<open>levenshteinDistance\<close> is meant to hold: the
  Levenshtein distance between the first \<open>i\<close> characters of \<open>a\<close> and the first \<open>j\<close>
  characters of \<open>b\<close>, with deletion, insertion and substitution.
\<close>

fun prefix_distance :: "string \<Rightarrow> string \<Rightarrow> nat \<Rightarrow> nat \<Rightarrow> nat" where
  "prefix_distance a b 0 j = j"
| "prefix_distance a b (Suc i) 0 = Suc i"
| "prefix_distance a b (Suc i) (Suc j) =
     min (min (prefix_distance a b i (Suc j) + 1) (prefix_distance a b (Suc i) j + 1))
         (prefix_distance a b i j + (if a ! i = b ! j then 0 else 1))"

text \<open>
  The invariant of the loops: a matrix of \<open>n + 1\<close> rows and \<open>m + 1\<close> columns whose first
  row, first column, rows before \<open>i\<close> and cells of row \<open>i\<close> before column \<open>j\<close> hold the
  recurrence.
\<close>

definition dims :: "nat list list \<Rightarrow> nat \<Rightarrow> nat \<Rightarrow> bool" where
  "dims M n m = (length M = n + 1 \<and> (\<forall>i \<le> n. length (M ! i) = m + 1))"

definition filled :: "string \<Rightarrow> string \<Rightarrow> nat \<Rightarrow> nat \<Rightarrow> nat list list \<Rightarrow> nat \<Rightarrow> nat \<Rightarrow> bool" where
  "filled a b n m M i j =
     (dims M n m \<and>
      (\<forall>i' j'. i' \<le> n \<longrightarrow> j' \<le> m \<longrightarrow> (i' = 0 \<or> j' = 0 \<or> i' < i \<or> (i' = i \<and> j' < j)) \<longrightarrow>
         M ! i' ! j' = prefix_distance a b i' j'))"

section \<open>The steps of the verifier pipeline\<close>

text \<open>
  The options of \<open>verify\<close> that change its control flow, and what the outside world
  answers during one call: the \<open>validator\<close> and \<open>punycode\<close> libraries, the list of
  disposable domains (a module that is not part of the sources), the MX cache, the two DNS
  resolvers, whether the overall timer wins the race against the parallel block, and the
  behaviour of the sockets of the main probe and of the catch-all probe.
\<close>

record options =
  checkCache :: bool
  checkSyntax :: bool
  checkMx :: bool
  checkDisposable :: bool
  checkDomainTypos :: bool
  checkCatchAll :: bool
  checkSmtp :: bool
  checkSpamTrap :: bool
  checkRoleAccount :: bool
  cacheResults :: bool
  useAlternativeDns :: bool

definition default_options :: options where
  "default_options =
     \<lparr>checkCache = True, checkSyntax = True, checkMx = True, checkDisposable = True,
      checkDomainTypos = True, checkCatchAll = True, checkSmtp = True, checkSpamTrap = True,
      checkRoleAccount = True, cacheResults = True, useAlternativeDns = False\<rparr>"

record env =
  isEmail :: "string \<Rightarrow> bool"
  toASCII :: "string \<Rightarrow> js_error + string"
  DisposableEmailDomains :: "string list"
  getCachedMxRecords :: "string \<Rightarrow> mx_record list option"
  resolveMx :: "string \<Rightarrow> js_error + mx_record list"
  alternativeResolveMx :: "string \<Rightarrow> js_error + mx_record list"
  resolveTxt :: "string \<Rightarrow> js_error + string list list"
  timeoutFirst :: bool
  smtpScript :: probe_script
  catchAllScript :: probe_script
  governor :: governor_config

text \<open>
  The Redis client of \<open>utils/cache.js\<close>, restricted to the \<open>verify:\<close> keys: each entry
  holds the duration given to \<open>setEx\<close>, in seconds, and the stored result. A client that
  is not ready reads as a miss and skips the write.
\<close>

record verification_cache =
  cacheReady :: bool
  entries :: "string \<rightharpoonup> nat \<times> result"

definition cacheVerificationResult ::
  "verification_cache \<Rightarrow> string \<Rightarrow> result \<Rightarrow> nat \<Rightarrow> verification_cache" where
  "cacheVerificationResult c email r duration =
     (if \<not> cacheReady c then c
      else c\<lparr>entries := (entries c)(''verify:'' @ toLowerCase email \<mapsto> (duration, r))\<rparr>)"

definition getCachedVerificationResult :: "verification_cache \<Rightarrow> string \<Rightarrow> result option" where
  "getCachedVerificationResult c email =
     (if \<not> cacheReady c then None
      else map_option snd (entries c (''verify:'' @ toLowerCase email)))"

record world =
  verifyCache :: verification_cache
  smtpRedis :: redis

text \<open>
  \<open>performSyntaxCheck\<close>. It splits the address again; with a single part the domain is
  \<open>undefined\<close> and reading a property of it throws.
\<close>

definition flag_format :: "bool \<Rightarrow> string \<Rightarrow> result \<Rightarrow> result" where
  "flag_format bad tag r =
     (if bad then r\<lparr>formatValid := False, errors := errors r @ [tag]\<rparr> else r)"

definition performSyntaxCheck :: "env \<Rightarrow> string \<Rightarrow> result \<Rightarrow> js_error + result" where
  "performSyntaxCheck ev email r =
     (if \<not> isEmail ev email then Inr (r\<lparr>errors := errors r @ [''Invalid email format'']\<rparr>)
      else
        (case split email CHR ''@'' of
           username # domain # rest \<Rightarrow>
             (let r1 = r\<lparr>formatValid := True\<rparr>;
                  r2 = flag_format (length username > 64)
                         ''Username exceeds maximum length (64 characters)'' r1;
                  r3 = flag_format (includes_str username ''..'' \<or> includes_str domain ''..'')
                         ''Consecutive dots are not allowed'' r2;
                  parts = split domain CHR ''.'';
                  r4 = flag_format (\<exists>part \<in> set parts. startsWith part ''-'' \<or> endsWith part ''-'')
                         ''Domain parts cannot start or end with hyphens'' r3;
                  r5 = flag_format (length (last parts) < 2)
                         ''Top-level domain is too short'' r4
              in Inr (r5\<lparr>details := (details r5)\<lparr>syntax_details :=
                        Some \<lparr>usernameLength = length username, domainParts = length parts,
                              tld = last parts\<rparr>\<rparr>\<rparr>))
         | _ \<Rightarrow> Inl (Error ''Cannot read properties of undefined (reading includes)'')))"

definition checkDisposableDomain :: "env \<Rightarrow> string \<Rightarrow> result \<Rightarrow> result" where
  "checkDisposableDomain ev domain r =
     (if domain \<in> set (DisposableEmailDomains ev)
      then r\<lparr>isDisposable := True, errors := errors r @ [''Disposable email address detected'']\<rparr>
      else r\<lparr>isDisposable := False\<rparr>)"

text \<open>
  \<open>checkMxRecords\<close>: the cached records if any, else the primary resolver, else (when
  enabled) the alternative one; a failure of both rethrows the primary error, which the
  function's own handler records. The write to the MX cache is not tracked.
\<close>

definition lookupMx :: "env \<Rightarrow> string \<Rightarrow> bool \<Rightarrow> js_error + mx_record list" where
  "lookupMx ev domain useAlternative =
     (case getCachedMxRecords ev domain of
        Some cachedMx \<Rightarrow> Inr cachedMx
      | None \<Rightarrow>
          (case resolveMx ev domain of
             Inr mxRecords \<Rightarrow> Inr mxRecords
           | Inl primaryError \<Rightarrow>
               if useAlternative
               then (case alternativeResolveMx ev domain of
                       Inr mxRecords \<Rightarrow> Inr mxRecords
                     | Inl alternativeError \<Rightarrow> Inl primaryError)
               else Inl primaryError))"

definition checkMxRecords :: "env \<Rightarrow> string \<Rightarrow> bool \<Rightarrow> result \<Rightarrow> result" where
  "checkMxRecords ev domain useAlternative r =
     (case lookupMx ev domain useAlternative of
        Inl error \<Rightarrow>
          r\<lparr>errors := errors r @ [''MX lookup failed: '' @ message error], hasMx := False\<rparr>
      | Inr mxRecords \<Rightarrow>
          if mxRecords = []
          then r\<lparr>hasMx := False, errors := errors r @ [''No MX records found for domain'']\<rparr>
          else r\<lparr>hasMx := True,
                 details := (details r)\<lparr>mx :=
                   Some \<lparr>records = take 3 mxRecords, count = length mxRecords\<rparr>\<rparr>\<rparr>)"

text \<open>
  \<open>checkSpamTrapIndicators\<close>. The regular expressions carry the \<open>i\<close> flag without the
  \<open>u\<close> flag, so they match the ASCII letters of either case.
\<close>

definition hasVowels :: "string \<Rightarrow> bool" where
  "hasVowels username = (\<exists>c \<in> set username. c \<in> set ''aeiouAEIOU'')"

definition alphanumeric :: "char \<Rightarrow> bool" where
  "alphanumeric c =
     (c \<in> set ''abcdefghijklmnopqrstuvwxyzABCDEFGHIJKLMNOPQRSTUVWXYZ0123456789'')"

definition isRandom :: "string \<Rightarrow> bool" where
  "isRandom username =
     ((length username \<ge> 8 \<and> (\<forall>c \<in> set username. alphanumeric c)) \<and> \<not> hasVowels username)"

definition isNewDomain :: bool where
  "isNewDomain = False"

fun join :: "string \<Rightarrow> string list \<Rightarrow> string" where
  "join sep [] = []"
| "join sep [x] = x"
| "join sep (x # y # ys) = x @ sep @ join sep (y # ys)"

definition suspicious :: "string \<Rightarrow> bool" where
  "suspicious flatRecords =
     (let low = toLowerCase flatRecords in
      includes_str low ''spam'' \<or> includes_str low ''trap'' \<or> includes_str low ''honeypot'')"

definition hasSuspiciousTxtRecords :: "env \<Rightarrow> string \<Rightarrow> bool" where
  "hasSuspiciousTxtRecords ev domain =
     (case resolveTxt ev domain of
        Inl e \<Rightarrow> False
      | Inr txtRecords \<Rightarrow> suspicious (join '' '' (map concat txtRecords)))"

definition checkSpamTrapIndicators :: "env \<Rightarrow> string \<Rightarrow> string \<Rightarrow> result \<Rightarrow> result" where
  "checkSpamTrapIndicators ev domain username r =
     (let trap = (isRandom username \<or> (isNewDomain \<and> hasSuspiciousTxtRecords ev domain));
          r1 = r\<lparr>isSpamTrap := trap\<rparr>;
          r2 = (if trap then r1\<lparr>errors := errors r1 @ [''Email matches spam trap patterns'']\<rparr>
                else r1)
      in r2\<lparr>details := (details r2)\<lparr>spamTrapIndicators :=
            Some \<lparr>randomUsername = isRandom username, newDomain = isNewDomain,
                  suspiciousTxtRecords = hasSuspiciousTxtRecords ev domain\<rparr>\<rparr>\<rparr>)"

text \<open>
  \<open>checkCatchAllDomain\<close>: a second probe, for a random address, on a fresh minimal result
  object.
\<close>

definition checkCatchAllDomain :: "env \<Rightarrow> redis \<Rightarrow> string \<Rightarrow> result \<Rightarrow> result \<times> redis" where
  "checkCatchAllDomain ev rc domain r =
     (case performSmtpCheck (governor ev) (catchAllScript ev) rc domain
             \<lparr>smtpCheck = False, errors = []\<rparr> of
        (testResult, rc1) \<Rightarrow>
          (if smtpCheck testResult
           then r\<lparr>isCatchAll := True, details := (details r)\<lparr>catchAll := Some True\<rparr>\<rparr>
           else r\<lparr>isCatchAll := False\<rparr>, rc1))"

section \<open>\<open>EnhancedEmailVerifier.verify\<close>\<close>

text \<open>
  The four ways in which \<open>verify\<close> returns: the cached result, one of the early returns
  (bad split, bad domain encoding, failed syntax check), the result after the final validity
  determination, and the object built by the handler around the whole body.
\<close>

datatype verify_return =
    FromCache result
  | EarlyReturn result
  | Completed result
  | ProcessFailed failure_result

text \<open>
  The parallel block and the race against the timer. The array of promises is built
  in order, so the disposable check has run and the MX lookup has started when the third
  element is reached. The class has no method \<open>checkRoleAccount\<close>: with the option set,
  calling it throws a \<open>TypeError\<close>.
\<close>

definition parallel_checks ::
  "env \<Rightarrow> options \<Rightarrow> string \<Rightarrow> string \<Rightarrow> result \<Rightarrow> js_error + result" where
  "parallel_checks ev opts email domain r =
     (let r1 = (if checkDisposable opts then checkDisposableDomain ev domain r else r);
          r2 = (if checkMx opts then checkMxRecords ev domain (useAlternativeDns opts) r1
                else r1)
      in if checkRoleAccount opts
         then Inl (Error ''this.checkRoleAccount is not a function'')
         else
           (let r3 = (if checkDomainTypos opts then suggestCorrection email r2 else r2)
            in if timeoutFirst ev then Inl (Error ''Verification timeout'') else Inr r3))"

text \<open>
  The checks behind the MX gate, when every await settles. The value of \<open>getSmtpDelay\<close>
  is only the length of a sleep before the probe; its await is in \<open>awaits_behind_gate\<close>.
\<close>

definition mx_gated_checks ::
  "env \<Rightarrow> options \<Rightarrow> redis \<Rightarrow> string \<Rightarrow> string \<Rightarrow> result \<Rightarrow> result \<times> redis" where
  "mx_gated_checks ev opts rc domain username r =
     (if hasMx r then
        (let domainBlocked = isDomainBlocked rc domain;
             r1 = r\<lparr>details := (details r)\<lparr>smtpBlocked := Some domainBlocked\<rparr>\<rparr>;
             (r2, rc2) = (if checkSmtp opts \<and> \<not> domainBlocked
                          then performSmtpCheck (governor ev) (smtpScript ev) rc domain r1
                          else (r1, rc));
             (r3, rc3) = (if checkCatchAll opts \<and> smtpCheck r2 \<and> \<not> isDisposable r2
                          then checkCatchAllDomain ev rc2 domain r2
                          else (r2, rc2));
             r4 = (if checkSpamTrap opts then checkSpamTrapIndicators ev domain username r3
                   else r3)
         in (r4, rc3))
      else (r, rc))"

text \<open>The final validity determination; an absent \<open>smtpBlocked\<close> is falsy.\<close>

definition final_validity :: "result \<Rightarrow> result" where
  "final_validity r =
     r\<lparr>isValid := formatValid r \<and> hasMx r \<and> \<not> isDisposable r \<and>
          (smtpCheck r \<or> smtpBlocked (details r) = Some True) \<and> \<not> isSpamTrap r\<rparr>"

definition cacheDuration :: "result \<Rightarrow> nat" where
  "cacheDuration r = (if isValid r then 86400 else 43200)"

text \<open>Everything after the syntax gate.\<close>

definition verify_checks ::
  "env \<Rightarrow> options \<Rightarrow> world \<Rightarrow> string \<Rightarrow> string \<Rightarrow> string \<Rightarrow> result
     \<Rightarrow> (js_error + verify_return) \<times> world" where
  "verify_checks ev opts w email username domain r =
     (case parallel_checks ev opts email domain r of
        Inl error \<Rightarrow> (Inl error, w)
      | Inr r1 \<Rightarrow>
          (case mx_gated_checks ev opts (smtpRedis w) domain username r1 of
             (r2, rc) \<Rightarrow>
               (let r3 = final_validity r2;
                    c = (if cacheResults opts
                         then cacheVerificationResult (verifyCache w) email r3 (cacheDuration r3)
                         else verifyCache w)
                in (Inr (Completed r3), \<lparr>verifyCache = c, smtpRedis = rc\<rparr>))))"

text \<open>The body of the \<open>try\<close> block of \<open>verify\<close>.\<close>

definition verify_try ::
  "env \<Rightarrow> options \<Rightarrow> world \<Rightarrow> string \<Rightarrow> (js_error + verify_return) \<times> world" where
  "verify_try ev opts w email =
     (case (if checkCache opts then getCachedVerificationResult (verifyCache w) email
            else None) of
        Some cachedResult \<Rightarrow> (Inr (FromCache (cachedResult\<lparr>fromCache := True\<rparr>)), w)
      | None \<Rightarrow>
          (case split email CHR ''@'' of
             [username, rawDomain] \<Rightarrow>
               (case toASCII ev (toLowerCase rawDomain) of
                  Inl error \<Rightarrow>
                    (Inr (EarlyReturn ((initial_result email)
                            \<lparr>errors := [''Invalid domain encoding'']\<rparr>)), w)
                | Inr domain \<Rightarrow>
                    (let r = (initial_result email)\<lparr>result_domain := Some domain\<rparr> in
                     if checkSyntax opts then
                       (case performSyntaxCheck ev email r of
                          Inl error \<Rightarrow> (Inl error, w)
                        | Inr r1 \<Rightarrow>
                            if \<not> formatValid r1 then
                              (Inr (EarlyReturn r1),
                               if cacheResults opts
                               then w\<lparr>verifyCache :=
                                      cacheVerificationResult (verifyCache w) email r1 86400\<rparr>
                               else w)
                            else verify_checks ev opts w email username domain r1)
                     else verify_checks ev opts w email username domain r))
           | _ \<Rightarrow>
               (Inr (EarlyReturn ((initial_result email)
                       \<lparr>errors := [''Invalid email format'']\<rparr>)), w)))"

text \<open>
  \<open>verify\<close>: the body, and the handler that turns whatever the body throws into the
  failure object. The outcome is a sum, so that a throw to the caller would be a value
  \<open>Inl\<close> of the function.
\<close>

definition verify ::
  "env \<Rightarrow> options \<Rightarrow> world \<Rightarrow> string \<Rightarrow> (js_error + verify_return) \<times> world" where
  "verify ev opts w email =
     (case verify_try ev opts w email of
        (Inl error, w1) \<Rightarrow>
          (Inr (ProcessFailed
             \<lparr>failure_email = email, failure_isValid = False,
              failure_errors = [''Verification process failed: '' @ message error]\<rparr>), w1)
      | (Inr out, w1) \<Rightarrow> (Inr out, w1))"

text \<open>The \<open>isValid\<close> property of whatever was returned.\<close>

fun returned_isValid :: "verify_return \<Rightarrow> bool" where
  "returned_isValid (FromCache r) = isValid r"
| "returned_isValid (EarlyReturn r) = isValid r"
| "returned_isValid (Completed r) = isValid r"
| "returned_isValid (ProcessFailed f) = failure_isValid f"

text \<open>The result of a call that went through the final validity determination.\<close>

fun completed_result :: "js_error + verify_return \<Rightarrow> result option" where
  "completed_result (Inr (Completed r)) = Some r"
| "completed_result other = None"

section \<open>Awaited commands that do not settle\<close>

text \<open>
  The definitions above describe a call of \<open>verify\<close> in which every awaited promise
  settles. Neither Redis client is created with a timeout for its commands: a command
  sent to a server that has stopped answering does not settle, and a command sent while
  the client reconnects is queued for as long as that lasts. The record says whether
  the commands settle during one call: those of the client of \<open>utils/cache.js\<close>, and
  those of the client of \<open>utils/ipRotation.js\<close>. A DNS query and an SMTP probe end by
  themselves, at the latest with an error of the resolver or at the timers of the probe;
  a parallel block slower than the timer of \<open>verify\<close> is \<open>timeoutFirst\<close>.
\<close>

record settling =
  cacheSettles :: bool
  governorSettles :: bool

datatype awaited = CacheCommand | GovernorCommand

fun settles :: "settling \<Rightarrow> awaited \<Rightarrow> bool" where
  "settles st CacheCommand = cacheSettles st"
| "settles st GovernorCommand = governorSettles st"

text \<open>
  The only timer of \<open>verify\<close> is raced against the parallel block. \<open>checkMxRecords\<close>
  first reads the MX cache; when that command does not settle, neither does the block,
  and the timer wins.
\<close>

definition race_lost :: "settling \<Rightarrow> env \<Rightarrow> options \<Rightarrow> world \<Rightarrow> bool" where
  "race_lost st ev opts w =
     (if checkMx opts \<and> cacheReady (verifyCache w) \<and> \<not> cacheSettles st then True
      else timeoutFirst ev)"

text \<open>
  The commands awaited behind the MX gate, in order: the read of \<open>isDomainBlocked\<close>
  (only with the client ready), the read of \<open>getSmtpDelay\<close> and the first read of
  \<open>getNextIp\<close> before the probe, and the first read of \<open>getNextIp\<close> for the catch-all
  probe. \<open>getSmtpDelay\<close> and \<open>getNextIp\<close> do not look at \<open>isReady\<close>.
\<close>

definition awaits_behind_gate ::
  "env \<Rightarrow> options \<Rightarrow> world \<Rightarrow> string \<Rightarrow> result \<Rightarrow> awaited list" where
  "awaits_behind_gate ev opts w domain r =
     (if hasMx r then
        (let rc = smtpRedis w;
             domainBlocked = isDomainBlocked rc domain;
             r1 = r\<lparr>details := (details r)\<lparr>smtpBlocked := Some domainBlocked\<rparr>\<rparr>;
             probing = (checkSmtp opts \<and> \<not> domainBlocked);
             r2 = (if probing
                   then fst (performSmtpCheck (governor ev) (smtpScript ev) rc domain r1)
                   else r1)
         in (if isReady rc then [GovernorCommand] else []) @
            (if probing then [GovernorCommand, GovernorCommand] else []) @
            (if checkCatchAll opts \<and> smtpCheck r2 \<and> \<not> isDisposable r2
             then [GovernorCommand] else []))
      else [])"

definition awaits_after_syntax ::
  "env \<Rightarrow> options \<Rightarrow> world \<Rightarrow> string \<Rightarrow> string \<Rightarrow> result \<Rightarrow> awaited list" where
  "awaits_after_syntax ev opts w email domain r =
     (case parallel_checks ev opts email domain r of
        Inl error \<Rightarrow> []
      | Inr r1 \<Rightarrow>
          awaits_behind_gate ev opts w domain r1 @
          (if cacheResults opts \<and> cacheReady (verifyCache w) then [CacheCommand] else []))"

text \<open>
  The commands outside the race that one call awaits when each of them settles, in
  order: the read of the result cache, then either the write after a failed syntax check
  or the commands behind the gate and the final write.
\<close>

definition awaits :: "env \<Rightarrow> options \<Rightarrow> world \<Rightarrow> string \<Rightarrow> awaited list" where
  "awaits ev opts w email =
     (if checkCache opts \<and> cacheReady (verifyCache w) then [CacheCommand] else []) @
     (case (if checkCache opts then getCachedVerificationResult (verifyCache w) email
            else None) of
        Some cachedResult \<Rightarrow> []
      | None \<Rightarrow>
          (case split email CHR ''@'' of
             [username, rawDomain] \<Rightarrow>
               (case toASCII ev (toLowerCase rawDomain) of
                  Inl error \<Rightarrow> []
                | Inr domain \<Rightarrow>
                    (let r = (initial_result email)\<lparr>result_domain := Some domain\<rparr> in
                     if checkSyntax opts then
                       (case performSyntaxCheck ev email r of
                          Inl error \<Rightarrow> []
                        | Inr r1 \<Rightarrow>
                            if \<not> formatValid r1 then
                              (if cacheResults opts \<and> cacheReady (verifyCache w)
                               then [CacheCommand] else [])
                            else awaits_after_syntax ev opts w email domain r1)
                     else awaits_after_syntax ev opts w email domain r))
           | _ \<Rightarrow> []))"

text \<open>
  One call of \<open>verify\<close> with commands that may not settle: \<open>None\<close> when the call
  never returns, else what \<open>verify\<close> returns or throws and the state it leaves.
\<close>

definition verify_call ::
  "settling \<Rightarrow> env \<Rightarrow> options \<Rightarrow> world \<Rightarrow> string
     \<Rightarrow> ((js_error + verify_return) \<times> world) option" where
  "verify_call st ev opts w email =
     (let ev1 = ev\<lparr>timeoutFirst := race_lost st ev opts w\<rparr> in
      if list_all (settles st) (awaits ev1 opts w email)
      then Some (verify ev1 opts w email)
      else None)"

text \<open>The options of the verification route for a user of the free plan.\<close>

definition free_plan_options :: options where
  "free_plan_options =
     default_options\<lparr>checkRoleAccount := False, checkCatchAll := False,
                      checkSpamTrap := False\<rparr>"

section \<open>Bulk verification worker (\<open>bulkVerificationQueue.process\<close> in \<open>config/queue.js\<close>)\<close>

text \<open>
  The stored job document, as far as the worker writes it.
\<close>

datatype job_status = queued | processing | completed | failed

record batch_job =
  totalEmails :: nat
  processedEmails :: nat
  validEmails :: nat
  invalidEmails :: nat
  status :: job_status
  job_error :: "string option"

text \<open>The three local counters of the worker.\<close>

record counters =
  processed :: nat
  validCount :: nat
  invalidCount :: nat

text \<open>
  What happens around one address: the outcome of \<open>verify\<close> (its \<open>isValid\<close>, or a throw),
  and for each awaited database call whether it rejects: the log row, the periodic update
  of the job (consulted only on every 50th address) and the failure row of the handler.
\<close>

record email_run =
  verified :: "js_error + bool"
  logCreate :: "js_error option"
  periodicUpdate :: "js_error option"
  failureLogCreate :: "js_error option"

text \<open>
  What happens around the loop: the update to \<open>processing\<close>, the runs of the addresses in
  order, the update to \<open>completed\<close>, the lookup of the user for the notification, and the
  update to \<open>failed\<close> in the outer handler. A rejected update leaves the document as it
  was.
\<close>

record job_run =
  startUpdate :: "js_error option"
  runs :: "email_run list"
  completeUpdate :: "js_error option"
  notifyUser :: bool
  userLookup :: "js_error option"
  failedUpdate :: "js_error option"

text \<open>
  The handler of the inner \<open>try\<close>: count the address as processed and invalid, write the
  failure row. A rejection of that write (the first component) leaves the loop.
\<close>

definition email_catch :: "email_run \<Rightarrow> counters \<Rightarrow> js_error option \<times> counters" where
  "email_catch run cs =
     (failureLogCreate run,
      cs\<lparr>processed := processed cs + 1, invalidCount := invalidCount cs + 1\<rparr>)"

definition write_counters :: "counters \<Rightarrow> batch_job \<Rightarrow> batch_job" where
  "write_counters cs job =
     job\<lparr>processedEmails := processed cs, validEmails := validCount cs,
         invalidEmails := invalidCount cs\<rparr>"

text \<open>
  The body of the loop for one address: the error that leaves the loop, if any, the
  counters afterwards, and whether the periodic update of the job was written. The
  counters are advanced before the log row is written, so a rejection after that point
  reaches the handler with the address already counted.
\<close>

definition process_email :: "email_run \<Rightarrow> counters \<Rightarrow> js_error option \<times> counters \<times> bool" where
  "process_email run cs =
     (case verified run of
        Inl e \<Rightarrow> (case email_catch run cs of (thrown, cs1) \<Rightarrow> (thrown, cs1, False))
      | Inr valid \<Rightarrow>
          (let cs1 = (if valid then cs\<lparr>validCount := validCount cs + 1\<rparr>
                      else cs\<lparr>invalidCount := invalidCount cs + 1\<rparr>);
               cs2 = cs1\<lparr>processed := processed cs1 + 1\<rparr>
           in case logCreate run of
                Some e \<Rightarrow> (case email_catch run cs2 of (thrown, cs3) \<Rightarrow> (thrown, cs3, False))
              | None \<Rightarrow>
                  if processed cs2 mod 50 = 0
                  then (case periodicUpdate run of
                          Some e \<Rightarrow>
                            (case email_catch run cs2 of (thrown, cs3) \<Rightarrow> (thrown, cs3, False))
                        | None \<Rightarrow> (None, cs2, True))
                  else (None, cs2, False)))"

text \<open>
  The loop over the addresses. The state is the counters, the stored document and the list
  of the documents stored so far, oldest first; \<open>Inl\<close> is an error that leaves the loop.
\<close>

fun process_emails ::
  "email_run list \<Rightarrow> counters \<Rightarrow> batch_job \<Rightarrow> batch_job list
     \<Rightarrow> (js_error + unit) \<times> counters \<times> batch_job \<times> batch_job list" where
  "process_emails [] cs job trace = (Inr (), cs, job, trace)"
| "process_emails (run # rest) cs job trace =
     (case process_email run cs of
        (Some e, cs1, written) \<Rightarrow> (Inl e, cs1, job, trace)
      | (None, cs1, written) \<Rightarrow>
          if written
          then process_emails rest cs1 (write_counters cs1 job)
                 (trace @ [write_counters cs1 job])
          else process_emails rest cs1 job trace)"

text \<open>The outer handler: mark the job as failed with the counters, then rethrow.\<close>

definition job_catch ::
  "job_run \<Rightarrow> js_error \<Rightarrow> counters \<Rightarrow> batch_job \<Rightarrow> batch_job list
     \<Rightarrow> (js_error + counters) \<times> batch_job list" where
  "job_catch jr error cs job trace =
     (case failedUpdate jr of
        Some e \<Rightarrow> (Inl e, trace)
      | None \<Rightarrow>
          (Inl error,
           trace @ [(write_counters cs job)\<lparr>status := failed,
                      job_error := Some (message error)\<rparr>]))"

text \<open>
  One run of the worker on a stored document: the value it returns or throws, and every
  document stored, oldest first, starting with the one found.
\<close>

definition bulk_process :: "job_run \<Rightarrow> batch_job \<Rightarrow> (js_error + counters) \<times> batch_job list" where
  "bulk_process jr job =
     (let cs0 = \<lparr>processed = 0, validCount = 0, invalidCount = 0\<rparr> in
      case startUpdate jr of
        Some e \<Rightarrow> job_catch jr e cs0 job [job]
      | None \<Rightarrow>
          (let job1 = job\<lparr>status := processing\<rparr> in
           case process_emails (runs jr) cs0 job1 [job, job1] of
             (Inl e, cs, job2, trace) \<Rightarrow> job_catch jr e cs job2 trace
           | (Inr u, cs, job2, trace) \<Rightarrow>
               (case completeUpdate jr of
                  Some e \<Rightarrow> job_catch jr e cs job2 trace
                | None \<Rightarrow>
                    (let job3 = (write_counters cs job2)\<lparr>status := completed\<rparr>;
                         trace3 = trace @ [job3]
                     in if notifyUser jr
                        then (case userLookup jr of
                                Some e \<Rightarrow> job_catch jr e cs job3 trace3
                              | None \<Rightarrow> (Inr cs, trace3))
                        else (Inr cs, trace3)))))"

text \<open>The document created at submission for a batch of \<open>n\<close> addresses.\<close>

definition submitted_job :: "nat \<Rightarrow> batch_job" where
  "submitted_job n =
     \<lparr>totalEmails = n, processedEmails = 0, validEmails = 0, invalidEmails = 0,
      status = queued, job_error = None\<rparr>"

section \<open>Sample inputs\<close>

text \<open>
  An outside world in which the libraries accept every address, the domain has one MX
  record and a TXT record that mentions a honeypot, the server greets and answers 250 to
  every command, and neither client has stored anything yet.
\<close>

definition sample_env :: env where
  "sample_env =
     \<lparr>isEmail = (\<lambda>email. True), toASCII = Inr,
      DisposableEmailDomains = [''mailinator.com''],
      getCachedMxRecords = (\<lambda>domain. None),
      resolveMx = (\<lambda>domain. Inr [\<lparr>exchange = ''mx.example.org'', priority = 10\<rparr>]),
      alternativeResolveMx = (\<lambda>domain. Inl (Error ''queryMx ETIMEOUT'')),
      resolveTxt = (\<lambda>domain. Inr ([''v=spf1 -all''] # [''honeypot''] # [])),
      timeoutFirst = False,
      smtpScript = Events [Data ''220 mx.example.org ESMTP'', Data ''250 mx.example.org'',
                           Data ''250 2.1.0 Ok'', Data ''250 2.1.5 Ok''],
      catchAllScript = Events [Data ''220 mx.example.org ESMTP'', Data ''250 mx.example.org'',
                               Data ''250 2.1.0 Ok'', Data ''550 5.1.1 User unknown''],
      governor = \<lparr>rateLimits = domainRateLimits, ipPool = [''default'']\<rparr>\<rparr>"

definition sample_world :: world where
  "sample_world =
     \<lparr>verifyCache = \<lparr>cacheReady = True, entries = Map.empty\<rparr>,
      smtpRedis = \<lparr>isReady = True, kv = Map.empty\<rparr>\<rparr>"

section \<open>The probe never accepts\<close>

lemma on_data_not_Accept: "on_data buf \<noteq> Accept"
  by (simp add: on_data_def)

lemma run_events_smtpCheck: "smtpCheck (fst (run_events es buf sent r)) = False"
proof (induction es arbitrary: buf sent)
  case Nil
  show ?case by simp
next
  case (Cons e es)
  show ?case
  proof (cases e)
    case (Data d)
    then show ?thesis
      using Cons.IH on_data_not_Accept [of "buf @ d"]
      by (cases "on_data (buf @ d)") (simp_all add: Let_def)
  qed simp_all
qed

lemma run_probe_smtpCheck: "smtpCheck (run_probe script r) = False"
  by (cases script) (simp_all add: run_events_smtpCheck)


text \<open>
  C6. A server that greets with 220 and answers 250 to HELO, MAIL FROM and RCPT TO: the
  buffer is never cleared, every chunk selects the first branch of the handler again, and
  the probe ends at the 15 second timer with \<open>smtpCheck = False\<close>. The same happens when
  the last answer is 550. No script of the socket makes the probe record
  \<open>smtpCheck = True\<close>.
\<close>

theorem C6_accepted_rcpt_not_recorded:
  "run_events [Data ''220 mx.example.org ESMTP'', Data ''250 mx.example.org'',
               Data ''250 2.1.0 Ok'', Data ''250 2.1.5 Ok''] [] []
       \<lparr>smtpCheck = False, errors = []\<rparr> =
     (\<lparr>smtpCheck = False, errors = [''SMTP check timed out'']\<rparr>,
      [SendHelo, SendHelo, SendHelo, SendHelo]) \<and>
   run_events [Data ''220 mx.example.org ESMTP'', Data ''250 mx.example.org'',
               Data ''250 2.1.0 Ok'', Data ''550 5.1.1 User unknown''] [] []
       \<lparr>smtpCheck = False, errors = []\<rparr> =
     (\<lparr>smtpCheck = False, errors = [''SMTP check timed out'']\<rparr>,
      [SendHelo, SendHelo, SendHelo, SendHelo]) \<and>
   smtpCheck (run_probe script r) = False"
  by (simp add: on_data_def run_probe_smtpCheck)

section \<open>Rate limits and round robin of \<open>getNextIp\<close>\<close>

lemma minuteKey_neq_hourKey: "minuteKey d \<noteq> hourKey d"
  by (simp add: minuteKey_def hourKey_def)

lemma minuteKey_neq_index: "minuteKey d \<noteq> ''smtp:ip_index''"
proof
  assume "minuteKey d = ''smtp:ip_index''"
  then have "last (minuteKey d) = last ''smtp:ip_index''" by simp
  then show False by (simp add: minuteKey_def)
qed

lemma hourKey_neq_index: "hourKey d \<noteq> ''smtp:ip_index''"
proof
  assume "hourKey d = ''smtp:ip_index''"
  then have "last (hourKey d) = last ''smtp:ip_index''" by simp
  then show False by (simp add: hourKey_def)
qed

lemmas key_neqs = minuteKey_neq_hourKey minuteKey_neq_index hourKey_neq_index
  minuteKey_neq_hourKey [symmetric] minuteKey_neq_index [symmetric] hourKey_neq_index [symmetric]

lemma getNextIp_minute:
  assumes "limitConfig cfg (toLowerCase domain) = Some lim" "isReady rc"
    and "count_of rc (minuteKey domain) = Some m" "maxPerMinute lim \<le> m"
  shows "getNextIp cfg rc domain = (Inl (Error (''RATE_LIMIT_MINUTE:'' @ domain)), rc)"
  using assms by (simp add: getNextIp_def reached_def)

lemma getNextIp_hour:
  assumes "limitConfig cfg (toLowerCase domain) = Some lim" "isReady rc"
    and "count_of rc (minuteKey domain) = Some m" "m < maxPerMinute lim"
    and "count_of rc (hourKey domain) = Some h" "maxPerHour lim \<le> h"
  shows "getNextIp cfg rc domain = (Inl (Error (''RATE_LIMIT_HOUR:'' @ domain)), rc)"
  using assms by (simp add: getNextIp_def reached_def)

lemma incr_numeric:
  assumes "numeric rc key" "count_of rc key = Some n"
  shows "incr rc key = Some (rc\<lparr>kv := (kv rc)(key \<mapsto> IntVal (n + 1))\<rparr>)"
  using assms by (auto simp: numeric_def count_of_def incr_def split: option.splits redis_value.splits)

lemma count_of_upd_other: "key' \<noteq> key \<Longrightarrow> count_of (rc\<lparr>kv := (kv rc)(key' \<mapsto> v)\<rparr>) key = count_of rc key"
  by (simp add: count_of_def)

lemma count_of_upd_same: "count_of (rc\<lparr>kv := (kv rc)(key \<mapsto> IntVal n)\<rparr>) key = Some n"
  by (simp add: count_of_def)

lemma numeric_upd_other: "key' \<noteq> key \<Longrightarrow> numeric (rc\<lparr>kv := (kv rc)(key' \<mapsto> v)\<rparr>) key = numeric rc key"
  by (simp add: numeric_def)

lemma numeric_upd_same: "numeric (rc\<lparr>kv := (kv rc)(key \<mapsto> IntVal n)\<rparr>) key"
  by (simp add: numeric_def)

lemma getNextIp_ok:
  assumes lim: "limitConfig cfg (toLowerCase domain) = Some lim" and ready: "isReady rc"
    and m: "count_of rc (minuteKey domain) = Some m" "m < maxPerMinute lim"
    and h: "count_of rc (hourKey domain) = Some h" "h < maxPerHour lim"
    and num: "numeric rc (minuteKey domain)" "numeric rc (hourKey domain)"
    and k: "count_of rc ''smtp:ip_index'' = Some k" and pool: "ipPool cfg \<noteq> []"
  shows "getNextIp cfg rc domain =
          (Inr (pool_at (ipPool cfg) k),
           rc\<lparr>kv := (kv rc)(minuteKey domain \<mapsto> IntVal (m + 1), hourKey domain \<mapsto> IntVal (h + 1),
                ''smtp:ip_index'' \<mapsto> IntVal (js_rem (k + 1) (int (length (ipPool cfg)))))\<rparr>)"
proof -
  let ?rc1 = "rc\<lparr>kv := (kv rc)(minuteKey domain \<mapsto> IntVal (m + 1))\<rparr>"
  let ?rc2 = "?rc1\<lparr>kv := (kv ?rc1)(hourKey domain \<mapsto> IntVal (h + 1))\<rparr>"
  have i1: "incr rc (minuteKey domain) = Some ?rc1"
    using num(1) m(1) by (rule incr_numeric)
  have "numeric ?rc1 (hourKey domain)" "count_of ?rc1 (hourKey domain) = Some h"
    using num(2) h(1) by (simp_all add: numeric_upd_other count_of_upd_other key_neqs)
  then have i2: "incr ?rc1 (hourKey domain) = Some ?rc2"
    by (rule incr_numeric)
  have k2: "count_of ?rc2 ''smtp:ip_index'' = Some k"
    using k by (simp add: count_of_def key_neqs)
  have n3: "next_index cfg ?rc2 = (pool_at (ipPool cfg) k,
      ?rc2\<lparr>kv := (kv ?rc2)(''smtp:ip_index'' \<mapsto> IntVal (js_rem (k + 1) (int (length (ipPool cfg)))))\<rparr>)"
    using k2 pool by (simp add: next_index_def)
  show ?thesis
    using lim ready m h i1 i2 n3 by (simp add: getNextIp_def reached_def)
qed


lemma acquire_many_snoc:
  "acquire_many cfg rc domain (Suc n) =
     (case acquire_many cfg rc domain n of
        (outs, rc1) \<Rightarrow> (case getNextIp cfg rc1 domain of (out, rc2) \<Rightarrow> (outs @ [out], rc2)))"
proof (induction n arbitrary: rc)
  case 0
  show ?case by (simp split: prod.splits)
next
  case (Suc n)
  obtain out rc1 where a: "getNextIp cfg rc domain = (out, rc1)"
    by (cases "getNextIp cfg rc domain")
  obtain outs rc2 where b: "acquire_many cfg rc1 domain n = (outs, rc2)"
    by (cases "acquire_many cfg rc1 domain n")
  obtain out' rc3 where c: "getNextIp cfg rc2 domain = (out', rc3)"
    by (cases "getNextIp cfg rc2 domain")
  have d: "acquire_many cfg rc1 domain (Suc n) = (outs @ [out'], rc3)"
    by (simp only: Suc.IH [of rc1] b c prod.case)
  have e: "acquire_many cfg rc domain (Suc n) = (out # outs, rc2)"
    by (simp add: a b)
  have "acquire_many cfg rc domain (Suc (Suc n)) = (out # outs @ [out'], rc3)"
    by (subst acquire_many.simps(2)) (simp only: a d prod.case)
  then show ?case
    by (simp only: e c prod.case append_Cons)
qed

lemma acquire_many_ok:
  assumes lim: "limitConfig cfg (toLowerCase domain) = Some lim" and pool: "ipPool cfg \<noteq> []"
  shows "isReady rc \<Longrightarrow> count_of rc (minuteKey domain) = Some m \<Longrightarrow>
         count_of rc (hourKey domain) = Some h \<Longrightarrow>
         numeric rc (minuteKey domain) \<Longrightarrow> numeric rc (hourKey domain) \<Longrightarrow>
         numeric rc ''smtp:ip_index'' \<Longrightarrow>
         m + int n \<le> maxPerMinute lim \<Longrightarrow> h + int n \<le> maxPerHour lim \<Longrightarrow>
         (case acquire_many cfg rc domain n of
            (outs, rc') \<Rightarrow>
              length outs = n \<and> (\<forall>out \<in> set outs. \<exists>ip. out = Inr ip) \<and>
              isReady rc' \<and> count_of rc' (minuteKey domain) = Some (m + int n) \<and>
              count_of rc' (hourKey domain) = Some (h + int n) \<and>
              numeric rc' (minuteKey domain) \<and> numeric rc' (hourKey domain) \<and>
              numeric rc' ''smtp:ip_index'')"
proof (induction n arbitrary: rc m h)
  case 0
  then show ?case by simp
next
  case (Suc n)
  obtain k where k: "count_of rc ''smtp:ip_index'' = Some k"
    using Suc.prems(6) by (auto simp: numeric_def count_of_def split: option.splits redis_value.splits)
  let ?rc1 = "rc\<lparr>kv := (kv rc)(minuteKey domain \<mapsto> IntVal (m + 1), hourKey domain \<mapsto> IntVal (h + 1),
                ''smtp:ip_index'' \<mapsto> IntVal (js_rem (k + 1) (int (length (ipPool cfg)))))\<rparr>"
  have step: "getNextIp cfg rc domain = (Inr (pool_at (ipPool cfg) k), ?rc1)"
    using lim Suc.prems(1,2) _ Suc.prems(3) _ Suc.prems(4,5) k pool
    by (rule getNextIp_ok) (use Suc.prems(7,8) in simp_all)
  have p1: "isReady ?rc1" using Suc.prems(1) by simp
  have p2: "count_of ?rc1 (minuteKey domain) = Some (m + 1)"
    by (simp add: count_of_def key_neqs)
  have p3: "count_of ?rc1 (hourKey domain) = Some (h + 1)"
    by (simp add: count_of_def key_neqs)
  have p4: "numeric ?rc1 (minuteKey domain)" "numeric ?rc1 (hourKey domain)"
    "numeric ?rc1 ''smtp:ip_index''"
    by (simp_all add: numeric_def key_neqs)
  have p5: "m + 1 + int n \<le> maxPerMinute lim" "h + 1 + int n \<le> maxPerHour lim"
    using Suc.prems(7,8) by simp_all
  have IH: "case acquire_many cfg ?rc1 domain n of
            (outs, rc') \<Rightarrow>
              length outs = n \<and> (\<forall>out \<in> set outs. \<exists>ip. out = Inr ip) \<and>
              isReady rc' \<and> count_of rc' (minuteKey domain) = Some (m + 1 + int n) \<and>
              count_of rc' (hourKey domain) = Some (h + 1 + int n) \<and>
              numeric rc' (minuteKey domain) \<and> numeric rc' (hourKey domain) \<and>
              numeric rc' ''smtp:ip_index''"
    using p1 p2 p3 p4 p5 by (rule Suc.IH)
  show ?case
    using IH by (simp add: step split: prod.splits)
qed


text \<open>
  C5. With the client ready and the three keys numeric, for a domain whose limits row is
  \<open>lim\<close>, minute counter \<open>m\<close>, hour counter \<open>h\<close> and stored pool index \<open>k\<close>:
  \<open>getNextIp\<close> fails with \<open>RATE_LIMIT_MINUTE\<close> when \<open>m\<close> has reached the per-minute
  limit; it fails with \<open>RATE_LIMIT_HOUR\<close> when the minute limit is not reached and \<open>h\<close>
  has reached the per-hour limit; otherwise it increments both counters, returns the pool
  entry at index \<open>k\<close> and stores \<open>(k + 1) mod\<close> the pool size. With a per-minute limit of
  100, a fresh minute window and room for 100 calls in the hour window, the first 100 of
  101 sequential calls succeed and the 101st fails with \<open>RATE_LIMIT_MINUTE\<close>.
\<close>

theorem C5_getNextIp_limits_round_robin:
  assumes lim: "limitConfig cfg (toLowerCase domain) = Some lim"
    and ready: "isReady rc" and pool: "ipPool cfg \<noteq> []"
    and num: "numeric rc (minuteKey domain)" "numeric rc (hourKey domain)"
      "numeric rc ''smtp:ip_index''"
    and m: "count_of rc (minuteKey domain) = Some m"
    and h: "count_of rc (hourKey domain) = Some h"
    and k: "count_of rc ''smtp:ip_index'' = Some k"
  shows "(maxPerMinute lim \<le> m \<longrightarrow>
            getNextIp cfg rc domain = (Inl (Error (''RATE_LIMIT_MINUTE:'' @ domain)), rc))
       \<and> (m < maxPerMinute lim \<and> maxPerHour lim \<le> h \<longrightarrow>
            getNextIp cfg rc domain = (Inl (Error (''RATE_LIMIT_HOUR:'' @ domain)), rc))
       \<and> (m < maxPerMinute lim \<and> h < maxPerHour lim \<and> 0 \<le> k \<and> k < int (length (ipPool cfg)) \<longrightarrow>
            getNextIp cfg rc domain =
              (Inr (Some (ipPool cfg ! nat k)),
               rc\<lparr>kv := (kv rc)(minuteKey domain \<mapsto> IntVal (m + 1),
                    hourKey domain \<mapsto> IntVal (h + 1),
                    ''smtp:ip_index'' \<mapsto> IntVal ((k + 1) mod int (length (ipPool cfg))))\<rparr>))
       \<and> (maxPerMinute lim = 100 \<and> m = 0 \<and> h + 100 \<le> maxPerHour lim \<longrightarrow>
            (let outs = fst (acquire_many cfg rc domain 101) in
             length outs = 101 \<and> (\<forall>i<100. \<exists>ip. outs ! i = Inr ip) \<and>
             outs ! 100 = Inl (Error (''RATE_LIMIT_MINUTE:'' @ domain))))"
proof (intro conjI impI)
  assume "maxPerMinute lim \<le> m"
  with lim ready m show "getNextIp cfg rc domain = (Inl (Error (''RATE_LIMIT_MINUTE:'' @ domain)), rc)"
    by (rule getNextIp_minute)
next
  assume "m < maxPerMinute lim \<and> maxPerHour lim \<le> h"
  then show "getNextIp cfg rc domain = (Inl (Error (''RATE_LIMIT_HOUR:'' @ domain)), rc)"
    using getNextIp_hour [OF lim ready m _ h] by simp
next
  assume a: "m < maxPerMinute lim \<and> h < maxPerHour lim \<and> 0 \<le> k \<and> k < int (length (ipPool cfg))"
  then have "pool_at (ipPool cfg) k = Some (ipPool cfg ! nat k)"
    and "js_rem (k + 1) (int (length (ipPool cfg))) = (k + 1) mod int (length (ipPool cfg))"
    by (simp_all add: pool_at_def js_rem_def)
  then show "getNextIp cfg rc domain =
              (Inr (Some (ipPool cfg ! nat k)),
               rc\<lparr>kv := (kv rc)(minuteKey domain \<mapsto> IntVal (m + 1),
                    hourKey domain \<mapsto> IntVal (h + 1),
                    ''smtp:ip_index'' \<mapsto> IntVal ((k + 1) mod int (length (ipPool cfg))))\<rparr>)"
    using getNextIp_ok [OF lim ready m _ h _ num(1,2) k pool] a by simp
next
  assume a: "maxPerMinute lim = 100 \<and> m = 0 \<and> h + 100 \<le> maxPerHour lim"
  obtain outs rc' where run: "acquire_many cfg rc domain 100 = (outs, rc')"
    by (cases "acquire_many cfg rc domain 100")
  have "case acquire_many cfg rc domain 100 of
          (outs, rc') \<Rightarrow>
            length outs = 100 \<and> (\<forall>out \<in> set outs. \<exists>ip. out = Inr ip) \<and>
            isReady rc' \<and> count_of rc' (minuteKey domain) = Some (m + int 100) \<and>
            count_of rc' (hourKey domain) = Some (h + int 100) \<and>
            numeric rc' (minuteKey domain) \<and> numeric rc' (hourKey domain) \<and>
            numeric rc' ''smtp:ip_index''"
    using lim pool ready m h num by (rule acquire_many_ok) (use a in simp_all)
  then have len: "length outs = 100" and ok: "\<forall>out \<in> set outs. \<exists>ip. out = Inr ip"
    and ready': "isReady rc'" and m': "count_of rc' (minuteKey domain) = Some 100"
    using a by (simp_all add: run)
  have last: "getNextIp cfg rc' domain = (Inl (Error (''RATE_LIMIT_MINUTE:'' @ domain)), rc')"
    using lim ready' m' by (rule getNextIp_minute) (use a in simp)
  have "(101::nat) = Suc 100" by simp
  then have all: "fst (acquire_many cfg rc domain 101) = outs @ [Inl (Error (''RATE_LIMIT_MINUTE:'' @ domain))]"
    by (simp only: acquire_many_snoc run last prod.case fst_conv)
  have "\<forall>i<100. \<exists>ip. (outs @ [Inl (Error (''RATE_LIMIT_MINUTE:'' @ domain))]) ! i = Inr ip"
    using ok len by (simp add: nth_append)
  moreover have "(outs @ [Inl (Error (''RATE_LIMIT_MINUTE:'' @ domain))]) ! 100
      = Inl (Error (''RATE_LIMIT_MINUTE:'' @ domain))"
    using len by (simp add: nth_append)
  ultimately show "let outs = fst (acquire_many cfg rc domain 101) in
             length outs = 101 \<and> (\<forall>i<100. \<exists>ip. outs ! i = Inr ip) \<and>
             outs ! 100 = Inl (Error (''RATE_LIMIT_MINUTE:'' @ domain))"
    using len by (simp only: all Let_def) simp
qed

theorem C5_getNextIp_limits_round_robin_witness:
  "getNextIp \<lparr>rateLimits = domainRateLimits, ipPool = [''10.0.0.1'', ''10.0.0.2'']\<rparr>
      \<lparr>isReady = True, kv = [''smtp:gmail.com:minute'' \<mapsto> IntVal 20,
          ''smtp:gmail.com:hour'' \<mapsto> IntVal 20]\<rparr> ''Gmail.com''
    = (Inl (Error ''RATE_LIMIT_MINUTE:Gmail.com''),
       \<lparr>isReady = True, kv = [''smtp:gmail.com:minute'' \<mapsto> IntVal 20,
          ''smtp:gmail.com:hour'' \<mapsto> IntVal 20]\<rparr>)
   \<and> getNextIp \<lparr>rateLimits = domainRateLimits, ipPool = [''10.0.0.1'', ''10.0.0.2'']\<rparr>
      \<lparr>isReady = True, kv = [''smtp:yahoo.com:minute'' \<mapsto> IntVal 3,
          ''smtp:yahoo.com:hour'' \<mapsto> IntVal 150]\<rparr> ''yahoo.com''
    = (Inl (Error ''RATE_LIMIT_HOUR:yahoo.com''),
       \<lparr>isReady = True, kv = [''smtp:yahoo.com:minute'' \<mapsto> IntVal 3,
          ''smtp:yahoo.com:hour'' \<mapsto> IntVal 150]\<rparr>)
   \<and> fst (getNextIp \<lparr>rateLimits = domainRateLimits, ipPool = [''10.0.0.1'', ''10.0.0.2'']\<rparr>
      \<lparr>isReady = True, kv = [''smtp:example.org:minute'' \<mapsto> IntVal 3,
          ''smtp:ip_index'' \<mapsto> IntVal 1]\<rparr> ''example.org'')
    = Inr (Some ''10.0.0.2'')
   \<and> kv (snd (getNextIp \<lparr>rateLimits = domainRateLimits, ipPool = [''10.0.0.1'', ''10.0.0.2'']\<rparr>
      \<lparr>isReady = True, kv = [''smtp:example.org:minute'' \<mapsto> IntVal 3,
          ''smtp:ip_index'' \<mapsto> IntVal 1]\<rparr> ''example.org'')) ''smtp:ip_index''
    = Some (IntVal 0)
   \<and> fst (acquire_many
        \<lparr>rateLimits = [''gmail.com'' \<mapsto> \<lparr>maxPerMinute = 100, maxPerHour = 250\<rparr>],
         ipPool = [''default'']\<rparr>
        \<lparr>isReady = True, kv = Map.empty\<rparr> ''gmail.com'' 101) ! 100
    = Inl (Error ''RATE_LIMIT_MINUTE:gmail.com'')"
proof (intro conjI)
  let ?cfg = "\<lparr>rateLimits = domainRateLimits, ipPool = [''10.0.0.1'', ''10.0.0.2'']\<rparr>"
  let ?rcA = "\<lparr>isReady = True, kv = [''smtp:gmail.com:minute'' \<mapsto> IntVal 20,
          ''smtp:gmail.com:hour'' \<mapsto> IntVal 20]\<rparr>"
  show "getNextIp ?cfg ?rcA ''Gmail.com'' = (Inl (Error ''RATE_LIMIT_MINUTE:Gmail.com''), ?rcA)"
    using C5_getNextIp_limits_round_robin
      [of ?cfg "''Gmail.com''" "\<lparr>maxPerMinute = 20, maxPerHour = 250\<rparr>" ?rcA 20 20 0]
    by (simp add: limitConfig_def domainRateLimits_def toLowerCase_def lower_char_def
        numeric_def count_of_def minuteKey_def hourKey_def)
next
  let ?cfg = "\<lparr>rateLimits = domainRateLimits, ipPool = [''10.0.0.1'', ''10.0.0.2'']\<rparr>"
  let ?rcB = "\<lparr>isReady = True, kv = [''smtp:yahoo.com:minute'' \<mapsto> IntVal 3,
          ''smtp:yahoo.com:hour'' \<mapsto> IntVal 150]\<rparr>"
  show "getNextIp ?cfg ?rcB ''yahoo.com'' = (Inl (Error ''RATE_LIMIT_HOUR:yahoo.com''), ?rcB)"
    using C5_getNextIp_limits_round_robin
      [of ?cfg "''yahoo.com''" "\<lparr>maxPerMinute = 10, maxPerHour = 150\<rparr>" ?rcB 3 150 0]
    by (simp add: limitConfig_def domainRateLimits_def toLowerCase_def lower_char_def
        numeric_def count_of_def minuteKey_def hourKey_def)
next
  let ?cfg = "\<lparr>rateLimits = domainRateLimits, ipPool = [''10.0.0.1'', ''10.0.0.2'']\<rparr>"
  let ?rcC = "\<lparr>isReady = True, kv = [''smtp:example.org:minute'' \<mapsto> IntVal 3,
          ''smtp:ip_index'' \<mapsto> IntVal 1]\<rparr>"
  have c: "getNextIp ?cfg ?rcC ''example.org'' =
      (Inr (Some ''10.0.0.2''),
       ?rcC\<lparr>kv := (kv ?rcC)(minuteKey ''example.org'' \<mapsto> IntVal 4,
            hourKey ''example.org'' \<mapsto> IntVal 1, ''smtp:ip_index'' \<mapsto> IntVal 0)\<rparr>)"
    using C5_getNextIp_limits_round_robin
      [of ?cfg "''example.org''" "\<lparr>maxPerMinute = 30, maxPerHour = 300\<rparr>" ?rcC 3 0 1]
    by (simp add: limitConfig_def domainRateLimits_def toLowerCase_def lower_char_def
        numeric_def count_of_def minuteKey_def hourKey_def)
  show "fst (getNextIp ?cfg ?rcC ''example.org'') = Inr (Some ''10.0.0.2'')"
    by (simp only: c fst_conv)
  show "kv (snd (getNextIp ?cfg ?rcC ''example.org'')) ''smtp:ip_index'' = Some (IntVal 0)"
    by (simp only: c snd_conv) simp
next
  let ?cfg = "\<lparr>rateLimits = [''gmail.com'' \<mapsto> \<lparr>maxPerMinute = 100, maxPerHour = 250\<rparr>],
         ipPool = [''default'']\<rparr>"
  let ?rc = "\<lparr>isReady = True, kv = Map.empty\<rparr>"
  show "fst (acquire_many ?cfg ?rc ''gmail.com'' 101) ! 100 = Inl (Error ''RATE_LIMIT_MINUTE:gmail.com'')"
    using C5_getNextIp_limits_round_robin
      [of ?cfg "''gmail.com''" "\<lparr>maxPerMinute = 100, maxPerHour = 250\<rparr>" ?rc 0 0 0]
    by (simp add: limitConfig_def toLowerCase_def lower_char_def
        numeric_def count_of_def minuteKey_def hourKey_def Let_def)
qed

section \<open>Properties of \<open>verify\<close>\<close>

lemma isValid_final_validity:
  "isValid (final_validity r) =
     (formatValid (final_validity r) \<and> hasMx (final_validity r) \<and> \<not> isDisposable (final_validity r) \<and>
      (smtpCheck (final_validity r) \<or> smtpBlocked (details (final_validity r)) = Some True) \<and>
      \<not> isSpamTrap (final_validity r))"
  by (simp add: final_validity_def)

lemma verify_checks_Completed:
  assumes "verify_checks ev opts w email username domain r = (Inr out, w')"
  shows "\<exists>r2. out = Completed (final_validity r2)"
  using assms
  by (auto simp: verify_checks_def Let_def split: sum.splits prod.splits)

lemma verify_try_Completed:
  assumes "fst (verify_try ev opts w email) = Inr (Completed r)"
  shows "\<exists>r2. r = final_validity r2"
proof -
  obtain w' where v: "verify_try ev opts w email = (Inr (Completed r), w')"
    using assms by (cases "verify_try ev opts w email") simp
  then show ?thesis
    by (auto simp: verify_try_def Let_def
        split: option.splits list.splits sum.splits if_splits
        dest!: verify_checks_Completed)
qed

lemma verify_Completed:
  assumes "fst (verify ev opts w email) = Inr (Completed r)"
  shows "fst (verify_try ev opts w email) = Inr (Completed r)"
  using assms by (auto simp: verify_def split: prod.splits sum.splits)

text \<open>
  C1. Whenever \<open>verify\<close> returns through the final validity determination, the result
  satisfies \<open>isValid = formatValid \<and> hasMx \<and> \<not> isDisposable \<and> (smtpCheck \<or> smtpBlocked)
  \<and> \<not> isSpamTrap\<close>.
\<close>

theorem C1_isValid_aggregation:
  assumes "fst (verify ev opts w email) = Inr (Completed r)"
  shows "isValid r =
           (formatValid r \<and> hasMx r \<and> \<not> isDisposable r \<and>
            (smtpCheck r \<or> smtpBlocked (details r) = Some True) \<and> \<not> isSpamTrap r)"
proof -
  obtain r2 where "r = final_validity r2"
    using verify_try_Completed [OF verify_Completed [OF assms]] by blast
  then show ?thesis
    by (simp only: isValid_final_validity)
qed

lemma verify_never_throws: "\<exists>out. fst (verify ev opts w email) = Inr out"
  by (auto simp: verify_def split: prod.splits sum.splits)

lemma verify_converts_throw:
  assumes "fst (verify_try ev opts w email) = Inl error"
  shows "fst (verify ev opts w email) =
           Inr (ProcessFailed \<lparr>failure_email = email, failure_isValid = False,
                  failure_errors = [''Verification process failed: '' @ message error]\<rparr>)"
  using assms by (auto simp: verify_def split: prod.splits sum.splits)

lemma verify_snd: "snd (verify ev opts w email) = snd (verify_try ev opts w email)"
  by (auto simp: verify_def split: prod.splits sum.splits)

lemma parallel_checks_throws:
  assumes "parallel_checks ev opts email domain r = Inl error"
  shows "(checkRoleAccount opts \<and> error = Error ''this.checkRoleAccount is not a function'') \<or>
         (\<not> checkRoleAccount opts \<and> timeoutFirst ev \<and> error = Error ''Verification timeout'')"
  using assms by (auto simp: parallel_checks_def Let_def split: if_splits)

lemma performSyntaxCheck_two_parts:
  assumes "split email CHR ''@'' = [username, rawDomain]"
  shows "performSyntaxCheck ev email r \<noteq> Inl error"
  using assms by (simp add: performSyntaxCheck_def Let_def)

lemma verify_try_throws:
  assumes "verify_try ev opts w email = (Inl error, w')"
  shows "w' = w \<and>
         ((checkRoleAccount opts \<and> error = Error ''this.checkRoleAccount is not a function'') \<or>
          (\<not> checkRoleAccount opts \<and> timeoutFirst ev \<and> error = Error ''Verification timeout''))"
proof -
  have a: "verify_checks ev opts w email u d r = (Inl error, w') \<Longrightarrow>
        w' = w \<and> parallel_checks ev opts email d r = Inl error" for u d r
    by (auto simp: verify_checks_def Let_def split: sum.splits prod.splits)
  show ?thesis
    using assms
    by (auto simp: verify_try_def Let_def
        split: option.splits list.splits sum.splits if_splits
        simp: performSyntaxCheck_two_parts dest!: a parallel_checks_throws)
qed


lemma run_events_shape:
  "fst (run_events evs buf sent r) =
     r\<lparr>smtpCheck := smtpCheck (fst (run_events evs buf sent r)),
       errors := errors (fst (run_events evs buf sent r))\<rparr>"
proof (induction evs arbitrary: buf sent)
  case Nil
  show ?case by simp
next
  case (Cons e evs)
  show ?case
  proof (cases e)
    case (Data d)
    show ?thesis
      using Cons.IH [of "buf @ d"]
      by (cases "on_data (buf @ d)") (simp_all add: Data Let_def)
  qed simp_all
qed

lemma run_probe_shape:
  "run_probe script r =
     r\<lparr>smtpCheck := smtpCheck (run_probe script r), errors := errors (run_probe script r)\<rparr>"
proof (cases script)
  case (SetupThrows e)
  then show ?thesis by simp
next
  case (Events evs)
  then show ?thesis using run_events_shape [of evs "[]" "[]" r] by simp
qed

lemma smtp_catch_shape:
  "smtp_catch error r =
     r\<lparr>smtpCheck := smtpCheck (smtp_catch error r), errors := errors (smtp_catch error r)\<rparr>"
  by (simp add: smtp_catch_def Let_def)

lemma performSmtpCheck_shape:
  "fst (performSmtpCheck cfg script rc domain r) =
     r\<lparr>smtpCheck := smtpCheck (fst (performSmtpCheck cfg script rc domain r)),
       errors := errors (fst (performSmtpCheck cfg script rc domain r))\<rparr>"
proof (cases "getNextIp cfg rc domain")
  case (Pair out rc1)
  show ?thesis
  proof (cases out)
    case (Inl error)
    then show ?thesis using Pair smtp_catch_shape [of error r]
      by (simp add: performSmtpCheck_def)
  next
    case (Inr ip)
    then show ?thesis using Pair run_probe_shape [of script r]
      by (simp add: performSmtpCheck_def)
  qed
qed

lemma formatValid_performSmtpCheck:
  "formatValid (fst (performSmtpCheck cfg script rc domain r)) = formatValid r"
proof -
  have "formatValid (fst (performSmtpCheck cfg script rc domain r)) =
        formatValid (r\<lparr>smtpCheck := smtpCheck (fst (performSmtpCheck cfg script rc domain r)),
          errors := errors (fst (performSmtpCheck cfg script rc domain r))\<rparr>)"
    using performSmtpCheck_shape [of cfg script rc domain r] by simp
  then show ?thesis by simp
qed

lemma formatValid_checkCatchAllDomain:
  "formatValid (fst (checkCatchAllDomain ev rc domain r)) = formatValid r"
  by (simp add: checkCatchAllDomain_def split: prod.splits)

lemma formatValid_checkSpamTrapIndicators:
  "formatValid (checkSpamTrapIndicators ev domain username r) = formatValid r"
  by (simp add: checkSpamTrapIndicators_def Let_def)

lemma formatValid_mx_gated_checks:
  "formatValid (fst (mx_gated_checks ev opts rc domain username r)) = formatValid r"
proof -
  have a: "performSmtpCheck cfg script rc domain r' = (x, y) \<Longrightarrow> formatValid x = formatValid r'"
    for cfg script r' x y
    using formatValid_performSmtpCheck [of cfg script rc domain r'] by simp
  have b: "checkCatchAllDomain ev rc' domain r' = (x, y) \<Longrightarrow> formatValid x = formatValid r'"
    for rc' r' x y
    using formatValid_checkCatchAllDomain [of ev rc' domain r'] by simp
  show ?thesis
    by (auto simp: mx_gated_checks_def Let_def formatValid_checkSpamTrapIndicators
        split: prod.splits if_splits dest!: a b)
qed

lemma formatValid_parallel_checks:
  assumes "parallel_checks ev opts email domain r = Inr r1"
  shows "formatValid r1 = formatValid r"
  using assms
  by (auto simp: parallel_checks_def Let_def checkDisposableDomain_def checkMxRecords_def
      suggestCorrection_def split: if_splits sum.splits option.splits)

lemma isValid_performSyntaxCheck:
  assumes "performSyntaxCheck ev email r = Inr r1"
  shows "isValid r1 = isValid r"
  using assms
  by (auto simp: performSyntaxCheck_def Let_def flag_format_def split: if_splits list.splits)

lemma verify_checks_written:
  assumes v: "verify_checks ev opts w email username domain r0 = (out, w')"
    and e: "entries (verifyCache w') key = Some (ttl, r)"
    and n: "entries (verifyCache w) key \<noteq> Some (ttl, r)"
  shows "out = Inr (Completed r) \<and> ttl = (if isValid r then 86400 else 43200) \<and>
         formatValid r = formatValid r0"
proof (cases "parallel_checks ev opts email domain r0")
  case (Inl error)
  then show ?thesis using v e n by (simp add: verify_checks_def)
next
  case (Inr r1)
  obtain r2 rc where g: "mx_gated_checks ev opts (smtpRedis w) domain username r1 = (r2, rc)"
    by (cases "mx_gated_checks ev opts (smtpRedis w) domain username r1")
  have f: "formatValid r2 = formatValid r0"
    using formatValid_mx_gated_checks [of ev opts "smtpRedis w" domain username r1]
      formatValid_parallel_checks [OF Inr] g by simp
  show ?thesis
    using v e n f
    by (auto simp: verify_checks_def Inr g Let_def cacheVerificationResult_def cacheDuration_def
        final_validity_def split: if_splits)
qed

lemma verify_try_written:
  assumes v: "verify_try ev opts w email = (out, w')"
    and e: "entries (verifyCache w') key = Some (ttl, r)"
    and n: "entries (verifyCache w) key \<noteq> Some (ttl, r)"
  shows "(out = Inr (Completed r) \<and> ttl = (if isValid r then 86400 else 43200) \<and>
            (checkSyntax opts \<longrightarrow> formatValid r)) \<or>
         (out = Inr (EarlyReturn r) \<and> checkSyntax opts \<and> \<not> formatValid r \<and> \<not> isValid r \<and>
            ttl = 86400)"
  using v e n
  by (auto simp: verify_try_def Let_def cacheVerificationResult_def initial_result_def
      split: option.splits list.splits sum.splits if_splits
      dest: verify_checks_written isValid_performSyntaxCheck)

text \<open>
  C3. An address that is not answered from the cache, splits into two parts, has an
  encodable domain and passes the syntax check (when that check is enabled) gets, with
  \<open>checkRoleAccount\<close> set, the failure object of the outer handler, and the stored state
  is left as it was: neither the governor nor the cache has been written, so none of the
  later steps has run.
\<close>

theorem C3_missing_checkRoleAccount:
  assumes "checkCache opts \<longrightarrow> getCachedVerificationResult (verifyCache w) email = None"
    and "split email CHR ''@'' = [username, rawDomain]"
    and "toASCII ev (toLowerCase rawDomain) = Inr domain"
    and "checkSyntax opts \<longrightarrow>
           (\<exists>r1. performSyntaxCheck ev email
                    ((initial_result email)\<lparr>result_domain := Some domain\<rparr>) = Inr r1 \<and>
                 formatValid r1)"
    and "checkRoleAccount opts"
  shows "verify ev opts w email =
           (Inr (ProcessFailed \<lparr>failure_email = email, failure_isValid = False,
              failure_errors =
                [''Verification process failed: this.checkRoleAccount is not a function'']\<rparr>),
            w)"
proof -
  have a: "verify_checks ev opts w email username domain r =
             (Inl (Error ''this.checkRoleAccount is not a function''), w)" for r
    using assms(5) by (simp add: verify_checks_def parallel_checks_def Let_def)
  have "verify_try ev opts w email = (Inl (Error ''this.checkRoleAccount is not a function''), w)"
    using assms(1-4) by (auto simp: verify_try_def Let_def a)
  then show ?thesis
    by (simp add: verify_def)
qed

text \<open>The default options on a well-formed address.\<close>

theorem C3_missing_checkRoleAccount_witness:
  "fst (verify sample_env default_options sample_world ''john@example.org'') =
     Inr (ProcessFailed \<lparr>failure_email = ''john@example.org'', failure_isValid = False,
            failure_errors =
              [''Verification process failed: this.checkRoleAccount is not a function'']\<rparr>) \<and>
   snd (verify sample_env default_options sample_world ''john@example.org'') = sample_world"
proof -
  have 1: "checkCache default_options \<longrightarrow>
        getCachedVerificationResult (verifyCache sample_world) ''john@example.org'' = None"
    by (simp add: getCachedVerificationResult_def sample_world_def)
  have 2: "split ''john@example.org'' CHR ''@'' = [''john'', ''example.org'']"
    by (simp add: split_def)
  have 3: "toASCII sample_env (toLowerCase ''example.org'') = Inr ''example.org''"
    by (simp add: sample_env_def toLowerCase_def lower_char_def)
  have "isl (performSyntaxCheck sample_env ''john@example.org''
          ((initial_result ''john@example.org'')\<lparr>result_domain := Some ''example.org''\<rparr>)) = False
      \<and> formatValid (projr (performSyntaxCheck sample_env ''john@example.org''
          ((initial_result ''john@example.org'')\<lparr>result_domain := Some ''example.org''\<rparr>)))"
    by code_simp
  then have 4: "checkSyntax default_options \<longrightarrow>
        (\<exists>r1. performSyntaxCheck sample_env ''john@example.org''
                 ((initial_result ''john@example.org'')\<lparr>result_domain := Some ''example.org''\<rparr>) = Inr r1 \<and>
              formatValid r1)"
    by (cases "performSyntaxCheck sample_env ''john@example.org''
          ((initial_result ''john@example.org'')\<lparr>result_domain := Some ''example.org''\<rparr>)") simp_all
  have 5: "checkRoleAccount default_options"
    by (simp add: default_options_def)
  show ?thesis
    using C3_missing_checkRoleAccount [OF 1 2 3 4 5] by simp
qed

text \<open>
  C8, as amended. Every entry that a call of \<open>verify\<close> writes to the cache is either the
  result of the final validity determination, stored for 86400 seconds when valid and
  for 43200 seconds when not, or a result that failed the syntax check, which is not
  valid and is stored for 86400 seconds.
\<close>

theorem C8_cache_ttl:
  assumes "verify ev opts w email = (out, w')"
    and "entries (verifyCache w') key = Some (ttl, r)"
    and "entries (verifyCache w) key \<noteq> Some (ttl, r)"
  shows "(out = Inr (Completed r) \<and> ttl = (if isValid r then 86400 else 43200) \<and>
            (checkSyntax opts \<longrightarrow> formatValid r)) \<or>
         (out = Inr (EarlyReturn r) \<and> checkSyntax opts \<and> \<not> formatValid r \<and> \<not> isValid r \<and>
            ttl = 86400)"
proof -
  obtain out0 where t: "verify_try ev opts w email = (out0, w')"
    using assms(1) by (auto simp: verify_def split: prod.splits sum.splits)
  have "(out0 = Inr (Completed r) \<and> ttl = (if isValid r then 86400 else 43200) \<and>
            (checkSyntax opts \<longrightarrow> formatValid r)) \<or>
         (out0 = Inr (EarlyReturn r) \<and> checkSyntax opts \<and> \<not> formatValid r \<and> \<not> isValid r \<and>
            ttl = 86400)"
    using t assms(2,3) by (rule verify_try_written)
  then show ?thesis
    using assms(1) t by (auto simp: verify_def)
qed

lemmas eval_defs = verify_def verify_try_def verify_checks_def parallel_checks_def mx_gated_checks_def
  final_validity_def cacheDuration_def cacheVerificationResult_def getCachedVerificationResult_def
  performSyntaxCheck_def flag_format_def checkDisposableDomain_def checkMxRecords_def lookupMx_def
  checkSpamTrapIndicators_def isRandom_def hasVowels_def alphanumeric_def isNewDomain_def
  hasSuspiciousTxtRecords_def suspicious_def checkCatchAllDomain_def performSmtpCheck_def
  smtp_catch_def getNextIp_def limitConfig_def domainRateLimits_def count_of_def reached_def
  incr_def next_index_def pool_at_def js_rem_def minuteKey_def hourKey_def isDomainBlocked_def
  on_data_def split_def endsWith_def toLowerCase_def lower_char_def initial_result_def
  sample_env_def sample_world_def default_options_def Let_def

text \<open>
  An address of a blocked domain with MX records: the probe is skipped and the result is
  valid.
\<close>

theorem C1_isValid_aggregation_witness:
  "map_option isValid (completed_result (fst (verify sample_env
      (default_options\<lparr>checkRoleAccount := False, checkDomainTypos := False\<rparr>)
      (sample_world\<lparr>smtpRedis := \<lparr>isReady = True,
          kv = [''smtp:blocked:example.org'' \<mapsto> StrVal ''blocked'']\<rparr>\<rparr>)
      ''john@example.org''))) = Some True"
proof -
  let ?out = "fst (verify sample_env
      (default_options\<lparr>checkRoleAccount := False, checkDomainTypos := False\<rparr>)
      (sample_world\<lparr>smtpRedis := \<lparr>isReady = True,
          kv = [''smtp:blocked:example.org'' \<mapsto> StrVal ''blocked'']\<rparr>\<rparr>)
      ''john@example.org'')"
  have parts: "map_option (\<lambda>r. formatValid r \<and> hasMx r \<and> \<not> isDisposable r \<and>
      (smtpCheck r \<or> smtpBlocked (details r) = Some True) \<and> \<not> isSpamTrap r)
      (completed_result ?out) = Some True"
    by (simp add: eval_defs)
  then obtain r where r: "completed_result ?out = Some r"
    by (cases "completed_result ?out") simp_all
  then have "?out = Inr (Completed r)"
    by (rule completed_result.elims) simp_all
  from C1_isValid_aggregation [OF this] parts r show ?thesis
    by simp
qed

text \<open>
  C8 as stated fails: a domain label ending in a hyphen fails the syntax check, and the
  invalid result is stored for 24 hours.
\<close>

theorem C8_syntax_failure_stored_24h:
  "map_option fst (entries (verifyCache (snd (verify sample_env default_options sample_world
      ''john@exa-.org''))) ''verify:john@exa-.org'') = Some 86400 \<and>
   map_option (isValid \<circ> snd) (entries (verifyCache (snd (verify sample_env default_options
      sample_world ''john@exa-.org''))) ''verify:john@exa-.org'') = Some False \<and>
   entries (verifyCache sample_world) ''verify:john@exa-.org'' = None"
  by (simp add: eval_defs)

text \<open>A well-formed address that the probe does not confirm is stored for 12 hours.\<close>

theorem C8_cache_ttl_witness:
  "map_option fst (entries (verifyCache (snd (verify sample_env
      (default_options\<lparr>checkRoleAccount := False, checkDomainTypos := False\<rparr>) sample_world
      ''john@example.org''))) ''verify:john@example.org'') = Some 43200"
proof -
  let ?V = "verify sample_env
      (default_options\<lparr>checkRoleAccount := False, checkDomainTypos := False\<rparr>) sample_world
      ''john@example.org''"
  have inv: "map_option (isValid \<circ> snd)
      (entries (verifyCache (snd ?V)) ''verify:john@example.org'') = Some False"
    by (simp add: eval_defs)
  then obtain ttl r where e: "entries (verifyCache (snd ?V)) ''verify:john@example.org'' = Some (ttl, r)"
    by (cases "entries (verifyCache (snd ?V)) ''verify:john@example.org''") auto
  have old: "entries (verifyCache sample_world) ''verify:john@example.org'' \<noteq> Some (ttl, r)"
    by (simp add: sample_world_def)
  have notearly: "\<not> (\<exists>r'. fst ?V = Inr (EarlyReturn r'))"
    by (simp add: eval_defs)
  have "?V = (fst ?V, snd ?V)" by simp
  from C8_cache_ttl [OF this e old] notearly inv e show ?thesis
    by auto
qed

lemma verify_checks_Completed_hasMx:
  assumes "verify_checks ev opts w email username domain r0 = (Inr (Completed r), w')"
    and "hasMx r"
  shows "\<exists>r1. parallel_checks ev opts email domain r0 = Inr r1 \<and> hasMx r1 \<and>
           r = final_validity (fst (mx_gated_checks ev opts (smtpRedis w) domain username r1))"
proof (cases "parallel_checks ev opts email domain r0")
  case (Inl error)
  then show ?thesis using assms(1) by (simp add: verify_checks_def)
next
  case (Inr r1)
  obtain r2 rc where g: "mx_gated_checks ev opts (smtpRedis w) domain username r1 = (r2, rc)"
    by (cases "mx_gated_checks ev opts (smtpRedis w) domain username r1")
  have r: "r = final_validity r2"
    using assms(1) by (simp add: verify_checks_def Inr g Let_def)
  have "hasMx r1"
  proof (rule ccontr)
    assume "\<not> hasMx r1"
    then have "r2 = r1" using g by (simp add: mx_gated_checks_def)
    then show False using assms(2) r \<open>\<not> hasMx r1\<close> by (simp add: final_validity_def)
  qed
  then show ?thesis using Inr g r by simp
qed

lemma verify_try_Completed_checks:
  assumes "fst (verify_try ev opts w email) = Inr (Completed r)"
    and "split email CHR ''@'' = [username, rawDomain]"
  shows "\<exists>domain r0 w'. toASCII ev (toLowerCase rawDomain) = Inr domain \<and>
           verify_checks ev opts w email username domain r0 = (Inr (Completed r), w')"
proof -
  obtain w' where v: "verify_try ev opts w email = (Inr (Completed r), w')"
    using assms(1) by (cases "verify_try ev opts w email") simp
  show ?thesis
    using v assms(2)
    by (auto simp: verify_try_def Let_def
        split: option.splits sum.splits if_splits)
qed

lemma mx_gated_checks_spam_last:
  assumes "hasMx r1" "checkSpamTrap opts"
  shows "\<exists>r3. fst (mx_gated_checks ev opts rc domain username r1) =
           checkSpamTrapIndicators ev domain username r3"
  using assms by (auto simp: mx_gated_checks_def Let_def case_prod_beta)

lemma isSpamTrap_checkSpamTrapIndicators:
  "isSpamTrap (checkSpamTrapIndicators ev domain username r) = isRandom username"
  by (simp add: checkSpamTrapIndicators_def Let_def isNewDomain_def)

lemma isSpamTrap_mx_gated_checks:
  assumes "hasMx r1" "checkSpamTrap opts"
  shows "isSpamTrap (fst (mx_gated_checks ev opts rc domain username r1)) = isRandom username"
  using mx_gated_checks_spam_last [OF assms, of ev rc domain username]
  by (auto simp: isSpamTrap_checkSpamTrapIndicators)

text \<open>
  C4, as amended. For every call of \<open>verify\<close> that returns from the final validity
  determination, with MX records found and the spam-trap check enabled, \<open>isSpamTrap\<close>
  is true exactly when the local part has at least 8 characters, all of them ASCII
  letters of either case or digits, and none of them a vowel. The same holds of every
  run of \<open>checkSpamTrapIndicators\<close>, and the TXT records do not enter the verdict:
  whatever the lookup answers, also an error, the flag is the same.
\<close>

theorem C4_spam_trap_is_random_username:
  assumes "fst (verify ev opts w email) = Inr (Completed r)"
    and "split email CHR ''@'' = [username, rawDomain]"
    and "hasMx r" and "checkSpamTrap opts"
  shows "isSpamTrap r =
           (8 \<le> length username \<and> (\<forall>c \<in> set username. alphanumeric c) \<and> \<not> hasVowels username) \<and>
         isSpamTrap (checkSpamTrapIndicators ev1 d name r0) =
           (8 \<le> length name \<and> (\<forall>c \<in> set name. alphanumeric c) \<and> \<not> hasVowels name) \<and>
         isSpamTrap (checkSpamTrapIndicators (ev1\<lparr>resolveTxt := txt\<rparr>) d name r0) =
           isSpamTrap (checkSpamTrapIndicators ev1 d name r0)"
proof (intro conjI)
  obtain domain r0 w' where
    c: "verify_checks ev opts w email username domain r0 = (Inr (Completed r), w')"
    using verify_try_Completed_checks [OF verify_Completed [OF assms(1)] assms(2)] by blast
  obtain r1 where "hasMx r1"
    and "r = final_validity (fst (mx_gated_checks ev opts (smtpRedis w) domain username r1))"
    using verify_checks_Completed_hasMx [OF c assms(3)] by blast
  then have "isSpamTrap r = isRandom username"
    using isSpamTrap_mx_gated_checks [of r1 opts ev "smtpRedis w" domain username] assms(4)
    by (simp add: final_validity_def)
  then show "isSpamTrap r =
      (8 \<le> length username \<and> (\<forall>c \<in> set username. alphanumeric c) \<and> \<not> hasVowels username)"
    by (simp add: isRandom_def)
next
  show "isSpamTrap (checkSpamTrapIndicators ev1 d name r0) =
      (8 \<le> length name \<and> (\<forall>c \<in> set name. alphanumeric c) \<and> \<not> hasVowels name)"
    by (simp add: isSpamTrap_checkSpamTrapIndicators isRandom_def)
next
  show "isSpamTrap (checkSpamTrapIndicators (ev1\<lparr>resolveTxt := txt\<rparr>) d name r0) =
           isSpamTrap (checkSpamTrapIndicators ev1 d name r0)"
    by (simp add: isSpamTrap_checkSpamTrapIndicators)
qed

text \<open>Eight consonants, with a TXT lookup that fails.\<close>

theorem C4_spam_trap_is_random_username_witness:
  "map_option isSpamTrap (completed_result (fst (verify
      (sample_env\<lparr>resolveTxt := (\<lambda>domain. Inl (Error ''queryTxt ESERVFAIL''))\<rparr>)
      (default_options\<lparr>checkRoleAccount := False, checkDomainTypos := False\<rparr>) sample_world
      ''bcdfghjk@example.org''))) = Some True"
proof -
  let ?out = "fst (verify
      (sample_env\<lparr>resolveTxt := (\<lambda>domain. Inl (Error ''queryTxt ESERVFAIL''))\<rparr>)
      (default_options\<lparr>checkRoleAccount := False, checkDomainTypos := False\<rparr>) sample_world
      ''bcdfghjk@example.org'')"
  have mx: "map_option hasMx (completed_result ?out) = Some True"
    by (simp add: eval_defs)
  then obtain r where r: "completed_result ?out = Some r"
    by (cases "completed_result ?out") simp_all
  then have out: "?out = Inr (Completed r)"
    by (rule completed_result.elims) simp_all
  have s: "split ''bcdfghjk@example.org'' CHR ''@'' = [''bcdfghjk'', ''example.org'']"
    by (simp add: split_def)
  have h: "hasMx r" using mx r by simp
  have o: "checkSpamTrap (default_options\<lparr>checkRoleAccount := False, checkDomainTypos := False\<rparr>)"
    by (simp add: default_options_def)
  from C4_spam_trap_is_random_username [OF out s h o] r show ?thesis
    by (simp add: alphanumeric_def hasVowels_def)
qed

text \<open>
  C4 as stated fails: the TXT records of the domain mention a honeypot, and the address
  is not flagged. Nor is every address of a domain with MX records judged: with the
  default options a local part of eight consonants gets the failure object, which has
  no such flag.
\<close>

theorem C4_suspicious_txt_not_flagged:
  "map_option hasMx (completed_result (fst (verify sample_env
      (default_options\<lparr>checkRoleAccount := False, checkDomainTypos := False\<rparr>) sample_world
      ''john@example.org''))) = Some True \<and>
   map_option isSpamTrap (completed_result (fst (verify sample_env
      (default_options\<lparr>checkRoleAccount := False, checkDomainTypos := False\<rparr>) sample_world
      ''john@example.org''))) = Some False \<and>
   hasSuspiciousTxtRecords sample_env ''example.org'' \<and>
   lookupMx sample_env ''example.org'' False =
     Inr [\<lparr>exchange = ''mx.example.org'', priority = 10\<rparr>] \<and>
   isRandom ''bcdfghjk'' \<and>
   fst (verify sample_env default_options sample_world ''bcdfghjk@example.org'') =
     Inr (ProcessFailed \<lparr>failure_email = ''bcdfghjk@example.org'', failure_isValid = False,
            failure_errors =
              [''Verification process failed: this.checkRoleAccount is not a function'']\<rparr>)"
  by (simp add: eval_defs)

section \<open>A call of \<open>verify\<close> with a pending Redis command\<close>

lemma verify_passes_result:
  "verify_try ev opts w email = (Inr out, w') \<Longrightarrow> verify ev opts w email = (Inr out, w')"
  by (simp add: verify_def)

lemma verify_returns_or_fails:
  "(\<exists>out w'. verify_try ev opts w email = (Inr out, w') \<and>
              verify ev opts w email = (Inr out, w')) \<or>
   (\<exists>error. verify_try ev opts w email = (Inl error, w) \<and>
            verify ev opts w email =
              (Inr (ProcessFailed \<lparr>failure_email = email, failure_isValid = False,
                      failure_errors = [''Verification process failed: '' @ message error]\<rparr>),
               w))"
proof (cases "verify_try ev opts w email")
  case (Pair out w')
  show ?thesis
  proof (cases out)
    case (Inl error)
    with Pair have "w' = w" using verify_try_throws by simp
    with Pair Inl show ?thesis by (simp add: verify_def)
  next
    case (Inr ret)
    with Pair show ?thesis by (simp add: verify_def)
  qed
qed

lemma list_all_settles:
  "cacheSettles st \<Longrightarrow> governorSettles st \<Longrightarrow> list_all (settles st) xs"
proof (induction xs)
  case Nil
  show ?case by simp
next
  case (Cons a xs)
  then show ?case by (cases a) simp_all
qed

lemma verify_call_all_settle:
  "cacheSettles st \<Longrightarrow> governorSettles st \<Longrightarrow>
   verify_call st ev opts w email = Some (verify ev opts w email)"
  by (simp add: verify_call_def race_lost_def list_all_settles)

lemma verify_call_returns:
  assumes "list_all (settles st)
             (awaits (ev\<lparr>timeoutFirst := race_lost st ev opts w\<rparr>) opts w email)"
  shows "\<exists>out w'. verify_call st ev opts w email = Some (Inr out, w')"
proof -
  obtain out where
    "fst (verify (ev\<lparr>timeoutFirst := race_lost st ev opts w\<rparr>) opts w email) = Inr out"
    using verify_never_throws by blast
  then obtain w' where
    v: "verify (ev\<lparr>timeoutFirst := race_lost st ev opts w\<rparr>) opts w email = (Inr out, w')"
    by (cases "verify (ev\<lparr>timeoutFirst := race_lost st ev opts w\<rparr>) opts w email") simp
  have "verify_call st ev opts w email = Some (Inr out, w')"
    using assms v by (simp add: verify_call_def Let_def)
  then show ?thesis by blast
qed

lemma awaits_behind_gate_governor:
  "Q GovernorCommand \<Longrightarrow> list_all Q (awaits_behind_gate ev opts w domain r)"
  by (simp add: awaits_behind_gate_def Let_def)

lemma awaits_after_syntax_commands:
  assumes "Q GovernorCommand" and "cacheReady (verifyCache w) \<Longrightarrow> Q CacheCommand"
  shows "list_all Q (awaits_after_syntax ev opts w email domain r)"
  using assms
  by (simp add: awaits_after_syntax_def awaits_behind_gate_governor split: sum.split)

lemma awaits_commands:
  assumes "Q GovernorCommand" and "cacheReady (verifyCache w) \<Longrightarrow> Q CacheCommand"
  shows "list_all Q (awaits ev opts w email)"
  using assms
  by (simp add: awaits_def Let_def awaits_after_syntax_commands
      split: option.split list.split sum.split)

lemma verify_call_hangs:
  assumes "verify_call st ev opts w email = None"
  shows "(\<not> cacheSettles st \<and> cacheReady (verifyCache w)) \<or> \<not> governorSettles st"
proof (rule ccontr)
  assume "\<not> ((\<not> cacheSettles st \<and> cacheReady (verifyCache w)) \<or> \<not> governorSettles st)"
  then have g: "settles st GovernorCommand"
    and c: "cacheReady (verifyCache w) \<Longrightarrow> settles st CacheCommand"
    by auto
  have "list_all (settles st) (awaits ev1 opts w email)" for ev1
    using g c by (rule awaits_commands)
  with assms show False
    by (simp add: verify_call_def Let_def)
qed

lemma suggested_john: "suggested ''john@example.org'' = None"
  by code_simp

lemmas await_defs = verify_call_def race_lost_def awaits_def awaits_after_syntax_def
  awaits_behind_gate_def free_plan_options_def

text \<open>
  C2 fails on the code. The address \<open>john@example.org\<close> is verified with the options of
  a user of the free plan; the domain has MX records and every DNS query and the probe
  answer at once. When the commands of the Redis client of \<open>utils/ipRotation.js\<close> do not
  settle, the call never returns: with the client ready it stays at the read of
  \<open>isDomainBlocked\<close>, with the client not ready at the read of \<open>getSmtpDelay\<close>. When
  the commands of the client of \<open>utils/cache.js\<close> do not settle, it stays at the read of
  the result cache. The timer that the code creates \<open>to prevent long-running
  verifications\<close> only ends the parallel block: with the cache check off, the read of the
  MX cache that does not settle ends in the failure object of the timeout, and so does a
  parallel block slower than the timer. With every command settling the call returns
  from the final validity determination.
\<close>

theorem C2_redis_command_pending_never_returns:
  "verify_call \<lparr>cacheSettles = True, governorSettles = False\<rparr> sample_env free_plan_options
     sample_world ''john@example.org'' = None \<and>
   verify_call \<lparr>cacheSettles = True, governorSettles = False\<rparr> sample_env free_plan_options
     (sample_world\<lparr>smtpRedis := \<lparr>isReady = False, kv = Map.empty\<rparr>\<rparr>)
     ''john@example.org'' = None \<and>
   verify_call \<lparr>cacheSettles = False, governorSettles = True\<rparr> sample_env free_plan_options
     sample_world ''john@example.org'' = None \<and>
   map_option fst
     (verify_call \<lparr>cacheSettles = False, governorSettles = True\<rparr> sample_env
        (free_plan_options\<lparr>checkCache := False\<rparr>) sample_world ''john@example.org'') =
     Some (Inr (ProcessFailed \<lparr>failure_email = ''john@example.org'', failure_isValid = False,
                  failure_errors = [''Verification process failed: Verification timeout'']\<rparr>)) \<and>
   map_option fst
     (verify_call \<lparr>cacheSettles = True, governorSettles = True\<rparr>
        (sample_env\<lparr>timeoutFirst := True\<rparr>) free_plan_options sample_world
        ''john@example.org'') =
     Some (Inr (ProcessFailed \<lparr>failure_email = ''john@example.org'', failure_isValid = False,
                  failure_errors = [''Verification process failed: Verification timeout'']\<rparr>)) \<and>
   map_option (\<lambda>out. map_option hasMx (completed_result (fst out)))
     (verify_call \<lparr>cacheSettles = True, governorSettles = True\<rparr> sample_env
        (free_plan_options\<lparr>checkDomainTypos := False\<rparr>) sample_world ''john@example.org'') =
     Some (Some True)"
proof (intro conjI)
  show "verify_call \<lparr>cacheSettles = True, governorSettles = False\<rparr> sample_env free_plan_options
     sample_world ''john@example.org'' = None"
    by (simp add: await_defs eval_defs suggestCorrection_def suggested_john)
  show "verify_call \<lparr>cacheSettles = True, governorSettles = False\<rparr> sample_env free_plan_options
     (sample_world\<lparr>smtpRedis := \<lparr>isReady = False, kv = Map.empty\<rparr>\<rparr>)
     ''john@example.org'' = None"
    by (simp add: await_defs eval_defs suggestCorrection_def suggested_john)
  show "verify_call \<lparr>cacheSettles = False, governorSettles = True\<rparr> sample_env free_plan_options
     sample_world ''john@example.org'' = None"
    by (simp add: await_defs eval_defs)
  show "map_option fst
     (verify_call \<lparr>cacheSettles = False, governorSettles = True\<rparr> sample_env
        (free_plan_options\<lparr>checkCache := False\<rparr>) sample_world ''john@example.org'') =
     Some (Inr (ProcessFailed \<lparr>failure_email = ''john@example.org'', failure_isValid = False,
                  failure_errors = [''Verification process failed: Verification timeout'']\<rparr>))"
    by (simp add: await_defs eval_defs suggestCorrection_def suggested_john)
  show "map_option fst
     (verify_call \<lparr>cacheSettles = True, governorSettles = True\<rparr>
        (sample_env\<lparr>timeoutFirst := True\<rparr>) free_plan_options sample_world
        ''john@example.org'') =
     Some (Inr (ProcessFailed \<lparr>failure_email = ''john@example.org'', failure_isValid = False,
                  failure_errors = [''Verification process failed: Verification timeout'']\<rparr>))"
    by (simp add: await_defs eval_defs suggestCorrection_def suggested_john)
  show "map_option (\<lambda>out. map_option hasMx (completed_result (fst out)))
     (verify_call \<lparr>cacheSettles = True, governorSettles = True\<rparr> sample_env
        (free_plan_options\<lparr>checkDomainTypos := False\<rparr>) sample_world ''john@example.org'') =
     Some (Some True)"
    by (simp add: await_defs eval_defs)
qed

section \<open>Rate limiting inside \<open>performSmtpCheck\<close>\<close>

lemma getNextIp_throws_rate_limit:
  assumes "fst (getNextIp cfg rc domain) = Inl error"
  shows "error = Error (''RATE_LIMIT_MINUTE:'' @ domain) \<or> error = Error (''RATE_LIMIT_HOUR:'' @ domain)"
  using assms
  by (auto simp: getNextIp_def split: option.splits if_splits prod.splits)

lemma startsWith_rate_limit:
  assumes "fst (getNextIp cfg rc domain) = Inl error"
  shows "startsWith (message error) ''RATE_LIMIT''"
  using getNextIp_throws_rate_limit [OF assms] by auto

lemma smtpCheck_smtp_catch: "smtpCheck (smtp_catch e r) = startsWith (message e) ''RATE_LIMIT''"
  by (simp add: smtp_catch_def Let_def)

lemma errors_smtp_catch:
  "errors (smtp_catch e r) = errors r @ [''SMTP check error: '' @ message e]"
  by (simp add: smtp_catch_def Let_def)

lemma performSmtpCheck_Inl:
  assumes "fst (getNextIp cfg rc domain) = Inl error"
  shows "fst (performSmtpCheck cfg script rc domain r) = smtp_catch error r"
  using assms by (cases "getNextIp cfg rc domain") (simp add: performSmtpCheck_def)

lemma performSmtpCheck_Inr:
  assumes "fst (getNextIp cfg rc domain) = Inr ip"
  shows "fst (performSmtpCheck cfg script rc domain r) = run_probe script r"
  using assms by (cases "getNextIp cfg rc domain") (simp add: performSmtpCheck_def)

lemma smtpCheck_checkCatchAllDomain:
  "smtpCheck (fst (checkCatchAllDomain ev rc domain r)) = smtpCheck r"
  by (simp add: checkCatchAllDomain_def split: prod.splits)

lemma smtpCheck_checkSpamTrapIndicators:
  "smtpCheck (checkSpamTrapIndicators ev domain username r) = smtpCheck r"
  by (simp add: checkSpamTrapIndicators_def Let_def)

lemma smtpCheck_mx_gated_rate_limited:
  assumes "hasMx r1" "checkSmtp opts" "\<not> isDomainBlocked rc domain"
    and "fst (getNextIp (governor ev) rc domain) = Inl error"
  shows "smtpCheck (fst (mx_gated_checks ev opts rc domain username r1))"
proof -
  let ?r = "r1\<lparr>details := (details r1)\<lparr>smtpBlocked := Some False\<rparr>\<rparr>"
  have "smtpCheck (fst (performSmtpCheck (governor ev) (smtpScript ev) rc domain ?r))"
    using assms(4) by (simp add: performSmtpCheck_Inl smtpCheck_smtp_catch startsWith_rate_limit)
  then show ?thesis
    using assms(1-3)
    by (simp add: mx_gated_checks_def Let_def case_prod_beta smtpCheck_checkCatchAllDomain
        smtpCheck_checkSpamTrapIndicators)
qed

text \<open>
  C10. When \<open>getNextIp\<close> throws, the message begins with \<open>RATE_LIMIT\<close> and
  \<open>performSmtpCheck\<close> records the error and then sets \<open>smtpCheck = True\<close>; the handler
  leaves \<open>smtpCheck = False\<close> for an error with any other message; when \<open>getNextIp\<close>
  returns an address (also after a failure that it answers with \<open>ipPool[0]\<close>) the
  probe runs and \<open>smtpCheck\<close> stays false. In \<open>verify\<close>, a rate-limited address of a
  domain with MX records that is not blocked has \<open>smtpCheck = True\<close> in the final
  validity determination.
\<close>

theorem C10_rate_limit_counts_as_verified:
  "(fst (getNextIp cfg rc domain) = Inl error \<longrightarrow>
      startsWith (message error) ''RATE_LIMIT'' \<and>
      smtpCheck (fst (performSmtpCheck cfg script rc domain r)) \<and>
      errors (fst (performSmtpCheck cfg script rc domain r)) =
        errors r @ [''SMTP check error: '' @ message error]) \<and>
   smtpCheck (smtp_catch e r) = startsWith (message e) ''RATE_LIMIT'' \<and>
   (fst (getNextIp cfg rc domain) = Inr ip \<longrightarrow>
      \<not> smtpCheck (fst (performSmtpCheck cfg script rc domain r))) \<and>
   (fst (verify ev opts w email) = Inr (Completed res) \<and>
    split email CHR ''@'' = [username, rawDomain] \<and>
    toASCII ev (toLowerCase rawDomain) = Inr dm \<and> hasMx res \<and> checkSmtp opts \<and>
    \<not> isDomainBlocked (smtpRedis w) dm \<and>
    fst (getNextIp (governor ev) (smtpRedis w) dm) = Inl error \<longrightarrow>
      smtpCheck res \<and>
      isValid res = (formatValid res \<and> \<not> isDisposable res \<and> \<not> isSpamTrap res))"
proof (intro conjI impI)
  assume a: "fst (getNextIp cfg rc domain) = Inl error"
  show "startsWith (message error) ''RATE_LIMIT''"
    using a by (rule startsWith_rate_limit)
  then show "smtpCheck (fst (performSmtpCheck cfg script rc domain r))"
    using a by (simp add: performSmtpCheck_Inl smtpCheck_smtp_catch)
  show "errors (fst (performSmtpCheck cfg script rc domain r)) =
        errors r @ [''SMTP check error: '' @ message error]"
    using a by (simp add: performSmtpCheck_Inl errors_smtp_catch)
next
  show "smtpCheck (smtp_catch e r) = startsWith (message e) ''RATE_LIMIT''"
    by (rule smtpCheck_smtp_catch)
next
  assume "fst (getNextIp cfg rc domain) = Inr ip"
  then show "\<not> smtpCheck (fst (performSmtpCheck cfg script rc domain r))"
    by (simp add: performSmtpCheck_Inr run_probe_smtpCheck)
next
  assume a: "fst (verify ev opts w email) = Inr (Completed res) \<and>
    split email CHR ''@'' = [username, rawDomain] \<and>
    toASCII ev (toLowerCase rawDomain) = Inr dm \<and> hasMx res \<and> checkSmtp opts \<and>
    \<not> isDomainBlocked (smtpRedis w) dm \<and>
    fst (getNextIp (governor ev) (smtpRedis w) dm) = Inl error"
  then have t: "fst (verify_try ev opts w email) = Inr (Completed res)"
    by (simp add: verify_Completed)
  obtain domain r0 w' where d: "toASCII ev (toLowerCase rawDomain) = Inr domain"
    and c: "verify_checks ev opts w email username domain r0 = (Inr (Completed res), w')"
    using verify_try_Completed_checks [OF t] a by blast
  have dm: "domain = dm" using a d by simp
  obtain r1 where r1: "hasMx r1"
    and res: "res = final_validity (fst (mx_gated_checks ev opts (smtpRedis w) dm username r1))"
    using verify_checks_Completed_hasMx [OF c] a dm by blast
  have "smtpCheck (fst (mx_gated_checks ev opts (smtpRedis w) dm username r1))"
    using r1 a by (simp add: smtpCheck_mx_gated_rate_limited)
  then show s: "smtpCheck res"
    by (simp add: res final_validity_def)
  show "isValid res = (formatValid res \<and> \<not> isDisposable res \<and> \<not> isSpamTrap res)"
    using isValid_final_validity [of "fst (mx_gated_checks ev opts (smtpRedis w) dm username r1)"] s a res by auto
qed

text \<open>A domain whose minute counter stands at the default limit of 30.\<close>

theorem C10_rate_limit_counts_as_verified_witness:
  "map_option isValid (completed_result (fst (verify sample_env
      (default_options\<lparr>checkRoleAccount := False, checkDomainTypos := False\<rparr>)
      (sample_world\<lparr>smtpRedis := \<lparr>isReady = True,
          kv = [''smtp:example.org:minute'' \<mapsto> IntVal 30]\<rparr>\<rparr>)
      ''john@example.org''))) = Some True"
proof -
  let ?opts = "default_options\<lparr>checkRoleAccount := False, checkDomainTypos := False\<rparr>"
  let ?w = "sample_world\<lparr>smtpRedis := \<lparr>isReady = True,
          kv = [''smtp:example.org:minute'' \<mapsto> IntVal 30]\<rparr>\<rparr>"
  let ?out = "fst (verify sample_env ?opts ?w ''john@example.org'')"
  have parts: "map_option (\<lambda>r. hasMx r \<and> formatValid r \<and> \<not> isDisposable r \<and> \<not> isSpamTrap r)
      (completed_result ?out) = Some True"
    by (simp add: eval_defs)
  then obtain res where r: "completed_result ?out = Some res"
    by (cases "completed_result ?out") simp_all
  then have out: "?out = Inr (Completed res)"
    by (rule completed_result.elims) simp_all
  have s: "split ''john@example.org'' CHR ''@'' = [''john'', ''example.org'']"
    by (simp add: split_def)
  have a: "toASCII sample_env (toLowerCase ''example.org'') = Inr ''example.org''"
    by (simp add: sample_env_def toLowerCase_def lower_char_def)
  have o: "checkSmtp ?opts" by (simp add: default_options_def)
  have b: "\<not> isDomainBlocked (smtpRedis ?w) ''example.org''"
    by (simp add: isDomainBlocked_def toLowerCase_def lower_char_def)
  have g: "fst (getNextIp (governor sample_env) (smtpRedis ?w) ''example.org'') =
      Inl (Error ''RATE_LIMIT_MINUTE:example.org'')"
    by (simp add: eval_defs)
  have h: "hasMx res" using parts r by simp
  from C10_rate_limit_counts_as_verified [of "governor sample_env" "smtpRedis ?w"
      "''example.org''" "Error ''RATE_LIMIT_MINUTE:example.org''" "smtpScript sample_env"
      "initial_result ''john@example.org''" "Error ''RATE_LIMIT_MINUTE:example.org''" None
      sample_env ?opts ?w "''john@example.org''" res "''john''" "''example.org''"
      "''example.org''"]
    out s a h o b g parts r
  show ?thesis by simp
qed

section \<open>The matrix of \<open>levenshteinDistance\<close> holds the recurrence\<close>

lemma prefix_distance_0: "prefix_distance a b i 0 = i"
  by (cases i) simp_all

lemma dims_set_cell: "dims M n m \<Longrightarrow> dims (set_cell M i j v) n m"
proof -
  assume d: "dims M n m"
  have "length (M[i := (M ! i)[j := v]] ! k) = length (M ! k)" if "k < length M" for k
    using that by (cases "k = i") simp_all
  then show ?thesis
    using d by (simp add: dims_def set_cell_def)
qed

lemma nth_set_cell:
  assumes "dims M n m" "i \<le> n" "j \<le> m" "i' \<le> n"
  shows "set_cell M i j v ! i' ! j' = (if i' = i \<and> j' = j then v else M ! i' ! j')"
proof -
  have "i < length M" "i' < length M" "j < length (M ! i)"
    using assms by (simp_all add: dims_def)
  then show ?thesis
    by (simp add: set_cell_def nth_list_update)
qed

lemma fold_upt_invariant:
  assumes "P lo s" and "lo \<le> hi"
    and "\<And>k s. lo \<le> k \<Longrightarrow> k < hi \<Longrightarrow> P k s \<Longrightarrow> P (Suc k) (f k s)"
  shows "P hi (fold f [lo..<hi] s)"
  using assms(2,3)
proof (induction hi)
  case 0
  then show ?case using assms(1) by simp
next
  case (Suc hi)
  show ?case
  proof (cases "lo = Suc hi")
    case True
    then show ?thesis using assms(1) by simp
  next
    case False
    then have le: "lo \<le> hi" using Suc.prems(1) by simp
    have "P hi (fold f [lo..<hi] s)"
      using le Suc.prems(2) by (intro Suc.IH) simp_all
    then have "P (Suc hi) (f hi (fold f [lo..<hi] s))"
      using le by (intro Suc.prems(2)) simp_all
    then show ?thesis using le by simp
  qed
qed

lemma first_column:
  "dims M n m \<Longrightarrow>
   (let M1 = fold (\<lambda>i m. set_cell m i 0 i) [0..<n + 1] M in
    dims M1 n m \<and> (\<forall>i' \<le> n. M1 ! i' ! 0 = i'))"
proof -
  assume d: "dims M n m"
  let ?P = "\<lambda>k M1. dims M1 n m \<and> (\<forall>i' < k. M1 ! i' ! 0 = i')"
  have "?P (n + 1) (fold (\<lambda>i m. set_cell m i 0 i) [0..<n + 1] M)"
  proof (rule fold_upt_invariant [where P = ?P])
    show "?P 0 M" using d by simp
    show "0 \<le> n + 1" by simp
    fix k s assume "0 \<le> k" "k < n + 1" "?P k s"
    then show "?P (Suc k) (set_cell s k 0 k)"
      by (auto simp: dims_set_cell nth_set_cell less_Suc_eq)
  qed
  then show ?thesis by (simp add: Let_def less_Suc_eq_le)
qed

lemma first_row:
  assumes "dims M n m" "\<forall>i' \<le> n. M ! i' ! 0 = i'"
  shows "filled a b n m (fold (\<lambda>j m. set_cell m 0 j j) [0..<m + 1] M) 1 1"
proof -
  let ?P = "\<lambda>k M1. dims M1 n m \<and> (\<forall>i' \<le> n. M1 ! i' ! 0 = i') \<and> (\<forall>j' < k. M1 ! 0 ! j' = j')"
  have "?P (m + 1) (fold (\<lambda>j m. set_cell m 0 j j) [0..<m + 1] M)"
  proof (rule fold_upt_invariant [where P = ?P])
    show "?P 0 M" using assms by simp
    show "0 \<le> m + 1" by simp
    fix k s assume "0 \<le> k" "k < m + 1" "?P k s"
    then show "?P (Suc k) (set_cell s 0 k k)"
      by (auto simp: dims_set_cell nth_set_cell less_Suc_eq)
  qed
  then show ?thesis
    by (auto simp: filled_def prefix_distance_0 less_Suc_eq_le)
qed

lemma fill_cell_step:
  assumes f: "filled a b n m M i j" and i: "1 \<le> i" "i \<le> n" and j: "1 \<le> j" "j \<le> m"
  shows "filled a b n m (fill_cell a b i j M) i (Suc j)"
proof -
  obtain i0 j0 where ij: "i = Suc i0" "j = Suc j0"
    using i(1) j(1) by (metis One_nat_def Suc_le_D)
  have d: "dims M n m" using f by (simp add: filled_def)
  have r1: "M ! i0 ! j = prefix_distance a b i0 j"
    using f i j ij by (simp add: filled_def)
  have r2: "M ! i ! j0 = prefix_distance a b i j0"
    using f i j ij by (simp add: filled_def)
  have r3: "M ! i0 ! j0 = prefix_distance a b i0 j0"
    using f i j ij by (simp add: filled_def)
  have v: "fill_cell a b i j M = set_cell M i j (prefix_distance a b i j)"
    using r1 r2 r3 by (simp add: fill_cell_def ij Let_def)
  show ?thesis
    unfolding v filled_def
  proof (intro conjI allI impI)
    show "dims (set_cell M i j (prefix_distance a b i j)) n m"
      using d by (rule dims_set_cell)
    fix i' j' assume a: "i' \<le> n" "j' \<le> m"
      "i' = 0 \<or> j' = 0 \<or> i' < i \<or> (i' = i \<and> j' < Suc j)"
    show "set_cell M i j (prefix_distance a b i j) ! i' ! j' = prefix_distance a b i' j'"
    proof (cases "i' = i \<and> j' = j")
      case True
      then show ?thesis using d i j a by (simp add: nth_set_cell)
    next
      case False
      then have "i' = 0 \<or> j' = 0 \<or> i' < i \<or> (i' = i \<and> j' < j)"
        using a(3) by auto
      then have "M ! i' ! j' = prefix_distance a b i' j'"
        using f a(1,2) unfolding filled_def by blast
      then show ?thesis using False d i j a by (simp add: nth_set_cell)
    qed
  qed
qed

lemma fill_row:
  assumes f: "filled a b n m M i 1" and i: "1 \<le> i" "i \<le> n"
  shows "filled a b n m (fold (\<lambda>j m. fill_cell a b i j m) [1..<m + 1] M) (Suc i) 1"
proof -
  have "filled a b n m (fold (\<lambda>j m. fill_cell a b i j m) [1..<m + 1] M) i (m + 1)"
  proof (rule fold_upt_invariant [where P = "\<lambda>j M. filled a b n m M i j"])
    show "filled a b n m M i 1" by (rule f)
    show "1 \<le> m + 1" by simp
    fix k s assume "1 \<le> k" "k < m + 1" "filled a b n m s i k"
    then show "filled a b n m (fill_cell a b i k s) i (Suc k)"
      using i by (intro fill_cell_step) simp_all
  qed
  then have d: "dims (fold (\<lambda>j m. fill_cell a b i j m) [1..<m + 1] M) n m"
    and c: "\<And>i' j'. i' \<le> n \<Longrightarrow> j' \<le> m \<Longrightarrow>
              i' = 0 \<or> j' = 0 \<or> i' < i \<or> (i' = i \<and> j' < m + 1) \<Longrightarrow>
              fold (\<lambda>j m. fill_cell a b i j m) [1..<m + 1] M ! i' ! j' = prefix_distance a b i' j'"
    unfolding filled_def by blast+
  show ?thesis
    unfolding filled_def
  proof (intro conjI allI impI)
    show "dims (fold (\<lambda>j m. fill_cell a b i j m) [1..<m + 1] M) n m" by (rule d)
    fix i' j' assume a: "i' \<le> n" "j' \<le> m"
      "i' = 0 \<or> j' = 0 \<or> i' < Suc i \<or> (i' = Suc i \<and> j' < 1)"
    then have "i' = 0 \<or> j' = 0 \<or> i' < i \<or> (i' = i \<and> j' < m + 1)"
      by auto
    then show "fold (\<lambda>j m. fill_cell a b i j m) [1..<m + 1] M ! i' ! j' = prefix_distance a b i' j'"
      using a(1,2) by (rule c [rotated 2])
  qed
qed

lemma fill_all:
  assumes "filled a b n m M 1 1"
  shows "filled a b n m
           (fold (\<lambda>i m'. fold (\<lambda>j m'. fill_cell a b i j m') [1..<m + 1] m') [1..<n + 1] M)
           (n + 1) 1"
proof (rule fold_upt_invariant [where P = "\<lambda>i M. filled a b n m M i 1"])
  show "filled a b n m M 1 1" by (rule assms)
  show "1 \<le> n + 1" by simp
  fix k s assume "1 \<le> k" "k < n + 1" "filled a b n m s k 1"
  then show "filled a b n m (fold (\<lambda>j m'. fill_cell a b k j m') [1..<m + 1] s) (Suc k) 1"
    by (intro fill_row) simp_all
qed

lemma levenshteinDistance_recurrence:
  "levenshteinDistance a b = prefix_distance a b (length a) (length b)"
proof (cases "length a = 0 \<or> length b = 0")
  case True
  then show ?thesis by (auto simp: levenshteinDistance_def prefix_distance_0)
next
  case False
  let ?n = "length a" and ?m = "length b"
  let ?M0 = "replicate (?n + 1) (replicate (?m + 1) (0::nat))"
  let ?M1 = "fold (\<lambda>i m. set_cell m i 0 i) [0..<?n + 1] ?M0"
  let ?M2 = "fold (\<lambda>j m. set_cell m 0 j j) [0..<?m + 1] ?M1"
  let ?M3 = "fold (\<lambda>i m. fold (\<lambda>j m. fill_cell a b i j m) [1..<?m + 1] m) [1..<?n + 1] ?M2"
  have "dims ?M0 ?n ?m"
    unfolding dims_def
  proof (intro conjI allI impI)
    show "length ?M0 = ?n + 1" by simp
    fix i assume "i \<le> ?n"
    then have "i < ?n + 1" by simp
    then show "length (?M0 ! i) = ?m + 1"
      by (simp only: nth_replicate length_replicate)
  qed
  then have "dims ?M1 ?n ?m \<and> (\<forall>i' \<le> ?n. ?M1 ! i' ! 0 = i')"
    using first_column [of ?M0 ?n ?m] by (simp add: Let_def)
  then have "filled a b ?n ?m ?M2 1 1"
    by (intro first_row) simp_all
  then have "filled a b ?n ?m ?M3 (?n + 1) 1"
    by (rule fill_all)
  then have "?M3 ! ?n ! ?m = prefix_distance a b ?n ?m"
    by (simp add: filled_def)
  then show ?thesis using False by (simp add: levenshteinDistance_def Let_def)
qed

section \<open>Typo suggestions\<close>

lemma close_match_find:
  "close_match table domain =
     (case find (\<lambda>(correctDomain, variants).
                   domain \<in> set variants \<or>
                   levenshteinDistance domain correctDomain \<le> similarityThreshold) table of
        None \<Rightarrow> None
      | Some (correctDomain, variants) \<Rightarrow>
          if domain \<in> set variants then None else Some correctDomain)"
proof (induction table)
  case Nil
  show ?case by simp
next
  case (Cons entry table)
  obtain correctDomain variants where e: "entry = (correctDomain, variants)"
    by (cases entry)
  show ?case
    by (simp only: e close_match.simps find.simps prod.case Cons.IH split: if_splits) simp
qed

lemma close_match_no_variant:
  "\<forall>(correctDomain, variants) \<in> set table. domain \<notin> set variants \<Longrightarrow>
   close_match table domain =
     (case find (\<lambda>(correctDomain, variants).
                   levenshteinDistance domain correctDomain \<le> similarityThreshold) table of
        None \<Rightarrow> None
      | Some (correctDomain, variants) \<Rightarrow> Some correctDomain)"
proof (induction table)
  case Nil
  show ?case by simp
next
  case (Cons entry table)
  obtain correctDomain variants where e: "entry = (correctDomain, variants)"
    by (cases entry)
  from Cons.prems e have v: "domain \<notin> set variants"
    and t: "\<forall>(correctDomain, variants) \<in> set table. domain \<notin> set variants"
    by simp_all
  show ?case
    using v Cons.IH [OF t] by (simp add: e)
qed

lemma suggested_own_correction:
  "split email CHR ''@'' = [username, domain] \<Longrightarrow> map_of corrections domain = Some corrected \<Longrightarrow>
   suggested email = Some (username @ ''@'' @ corrected)"
  by (simp add: suggested_def property_def)

lemma suggested_close_match:
  "split email CHR ''@'' = [username, domain] \<Longrightarrow> map_of corrections domain = None \<Longrightarrow>
   map_of Object_prototype domain = None \<Longrightarrow>
   suggested email = map_option (\<lambda>correctDomain. username @ ''@'' @ correctDomain)
                       (close_match commonDomains domain)"
  by (simp add: suggested_def property_def split: option.splits)

text \<open>
  C9, as amended. \<open>suggestCorrection\<close> returns the hard-coded correction whenever the
  domain has an entry of its own in the typo map. For a domain without one, that is not
  the name of a member inherited by the map either, it goes through the table of
  well-known domains in its order. If no entry lists the domain as a known variant, the
  suggestion is the first entry within Levenshtein distance 2, which need not be the
  nearest one, and there is none when no entry is that close. If the first entry that
  either lists the domain or lies within distance 2 of it is one that lists it, there is
  no suggestion. There is no suggestion when the address does not split into two parts.
  In particular \<open>a@gmal.com\<close> is corrected to \<open>a@gmail.com\<close>.
\<close>

theorem C9_suggest_first_close_entry:
  "(split email CHR ''@'' = [username, domain] \<and> map_of corrections domain = Some corrected \<longrightarrow>
      suggested email = Some (username @ ''@'' @ corrected)) \<and>
   (split email CHR ''@'' = [username, domain] \<and> map_of corrections domain = None \<and>
    map_of Object_prototype domain = None \<and>
    (\<forall>(correctDomain, variants) \<in> set commonDomains. domain \<notin> set variants) \<longrightarrow>
      suggested email =
        (case find (\<lambda>(correctDomain, variants). levenshteinDistance domain correctDomain \<le> 2)
                commonDomains of
           None \<Rightarrow> None
         | Some (correctDomain, variants) \<Rightarrow> Some (username @ ''@'' @ correctDomain))) \<and>
   (split email CHR ''@'' = [username, domain] \<and> map_of corrections domain = None \<and>
    map_of Object_prototype domain = None \<and>
    find (\<lambda>(correctDomain, variants).
            domain \<in> set variants \<or> levenshteinDistance domain correctDomain \<le> 2)
      commonDomains = Some (knownDomain, knownVariants) \<and>
    domain \<in> set knownVariants \<longrightarrow>
      suggested email = None) \<and>
   (length (split email CHR ''@'') \<noteq> 2 \<longrightarrow> suggested email = None) \<and>
   suggested ''a@gmal.com'' = Some ''a@gmail.com''"
proof (intro conjI impI)
  assume "split email CHR ''@'' = [username, domain] \<and> map_of corrections domain = Some corrected"
  then show "suggested email = Some (username @ ''@'' @ corrected)"
    by (simp add: suggested_own_correction)
next
  assume a: "split email CHR ''@'' = [username, domain] \<and> map_of corrections domain = None \<and>
    map_of Object_prototype domain = None \<and>
    (\<forall>(correctDomain, variants) \<in> set commonDomains. domain \<notin> set variants)"
  then have "suggested email = map_option (\<lambda>correctDomain. username @ ''@'' @ correctDomain)
                       (close_match commonDomains domain)"
    by (simp add: suggested_close_match)
  moreover have "close_match commonDomains domain =
     (case find (\<lambda>(correctDomain, variants).
                   levenshteinDistance domain correctDomain \<le> similarityThreshold) commonDomains of
        None \<Rightarrow> None
      | Some (correctDomain, variants) \<Rightarrow> Some correctDomain)"
    using a by (intro close_match_no_variant) simp
  ultimately show "suggested email =
        (case find (\<lambda>(correctDomain, variants). levenshteinDistance domain correctDomain \<le> 2)
                commonDomains of
           None \<Rightarrow> None
         | Some (correctDomain, variants) \<Rightarrow> Some (username @ ''@'' @ correctDomain))"
    by (simp add: similarityThreshold_def split: option.splits prod.splits)
next
  assume a: "split email CHR ''@'' = [username, domain] \<and> map_of corrections domain = None \<and>
    map_of Object_prototype domain = None \<and>
    find (\<lambda>(correctDomain, variants).
            domain \<in> set variants \<or> levenshteinDistance domain correctDomain \<le> 2)
      commonDomains = Some (knownDomain, knownVariants) \<and>
    domain \<in> set knownVariants"
  then have "suggested email = map_option (\<lambda>correctDomain. username @ ''@'' @ correctDomain)
                       (close_match commonDomains domain)"
    by (simp add: suggested_close_match)
  moreover have "close_match commonDomains domain = None"
    using a by (simp add: close_match_find similarityThreshold_def)
  ultimately show "suggested email = None"
    by simp
next
  assume "length (split email CHR ''@'') \<noteq> 2"
  then show "suggested email = None"
    by (auto simp: suggested_def split: list.splits)
next
  show "suggested ''a@gmal.com'' = Some ''a@gmail.com''"
    by (simp add: suggested_def split_def corrections_def property_def)
qed

text \<open>
  The cases at concrete addresses: a domain of the typo map; a domain that no entry
  lists, close to an entry; one far from every entry; a known variant of its own entry;
  and a string without \<open>@\<close>.
\<close>

theorem C9_suggest_first_close_entry_witness:
  "suggested ''bob@yahooo.com'' = Some ''bob@yahoo.com'' \<and>
   suggested ''bob@outlok.co'' = Some ''bob@outlook.com'' \<and>
   suggested ''bob@example.org'' = None \<and>
   suggested ''bob@gmx.de'' = None \<and>
   suggested ''not-an-email'' = None"
proof (intro conjI)
  have "split ''bob@yahooo.com'' CHR ''@'' = [''bob'', ''yahooo.com'']"
    by (simp add: split_def)
  moreover have "map_of corrections ''yahooo.com'' = Some ''yahoo.com''"
    by (simp add: corrections_def)
  ultimately show "suggested ''bob@yahooo.com'' = Some ''bob@yahoo.com''"
    using C9_suggest_first_close_entry [of "''bob@yahooo.com''" "''bob''" "''yahooo.com''"
        "''yahoo.com''" "[]" "[]"]
    by simp
next
  have s: "split ''bob@outlok.co'' CHR ''@'' = [''bob'', ''outlok.co'']"
    by (simp add: split_def)
  have c: "map_of corrections ''outlok.co'' = None"
    by (simp add: corrections_def)
  have p: "map_of Object_prototype ''outlok.co'' = None"
    by (simp add: Object_prototype_def)
  have v: "\<forall>(correctDomain, variants) \<in> set commonDomains. ''outlok.co'' \<notin> set variants"
    by (simp add: commonDomains_def)
  have f: "find (\<lambda>(correctDomain, variants).
              levenshteinDistance ''outlok.co'' correctDomain \<le> 2) commonDomains =
           Some (''outlook.com'', [''outlook.com'', ''hotmail.com''])"
    by code_simp
  show "suggested ''bob@outlok.co'' = Some ''bob@outlook.com''"
    using C9_suggest_first_close_entry [of "''bob@outlok.co''" "''bob''" "''outlok.co''"
        "[]" "[]" "[]"] s c p v f
    by simp
next
  have s: "split ''bob@example.org'' CHR ''@'' = [''bob'', ''example.org'']"
    by (simp add: split_def)
  have c: "map_of corrections ''example.org'' = None"
    by (simp add: corrections_def)
  have p: "map_of Object_prototype ''example.org'' = None"
    by (simp add: Object_prototype_def)
  have v: "\<forall>(correctDomain, variants) \<in> set commonDomains. ''example.org'' \<notin> set variants"
    by (simp add: commonDomains_def)
  have f: "find (\<lambda>(correctDomain, variants).
              levenshteinDistance ''example.org'' correctDomain \<le> 2) commonDomains = None"
    by code_simp
  show "suggested ''bob@example.org'' = None"
    using C9_suggest_first_close_entry [of "''bob@example.org''" "''bob''" "''example.org''"
        "[]" "[]" "[]"] s c p v f
    by simp
next
  have s: "split ''bob@gmx.de'' CHR ''@'' = [''bob'', ''gmx.de'']"
    by (simp add: split_def)
  have c: "map_of corrections ''gmx.de'' = None"
    by (simp add: corrections_def)
  have p: "map_of Object_prototype ''gmx.de'' = None"
    by (simp add: Object_prototype_def)
  have f: "find (\<lambda>(correctDomain, variants).
              ''gmx.de'' \<in> set variants \<or>
              levenshteinDistance ''gmx.de'' correctDomain \<le> 2) commonDomains =
           Some (''gmx.com'', [''gmx.com'', ''gmx.de''])"
    by code_simp
  show "suggested ''bob@gmx.de'' = None"
    using C9_suggest_first_close_entry [of "''bob@gmx.de''" "''bob''" "''gmx.de''"
        "[]" "''gmx.com''" "[''gmx.com'', ''gmx.de'']"] s c p f
    by simp
next
  have "length (split ''not-an-email'' CHR ''@'') \<noteq> 2"
    by (simp add: split_def)
  then show "suggested ''not-an-email'' = None"
    using C9_suggest_first_close_entry [of "''not-an-email''" "[]" "[]" "[]" "[]" "[]"]
    by simp
qed

text \<open>
  C9 as stated fails: for \<open>a@ail.com\<close>, a domain that is neither in the typo map nor a
  known variant of any entry, the suggestion is \<open>gmail.com\<close>, at distance 2, although the
  table holds \<open>aol.com\<close> at distance 1.
\<close>

theorem C9_suggestion_not_nearest:
  "suggested ''a@ail.com'' = Some ''a@gmail.com'' \<and>
   levenshteinDistance ''ail.com'' ''gmail.com'' = 2 \<and>
   levenshteinDistance ''ail.com'' ''aol.com'' = 1 \<and>
   (''aol.com'', [''aol.com'']) \<in> set commonDomains \<and>
   map_of corrections ''ail.com'' = None"
  by code_simp

text \<open>
  The basic verifier on a domain of its typo map, on one at distance 1 from an entry of
  its list, and on one far from every entry.
\<close>

lemma EmailVerifier_suggestCorrection_examples:
  "EmailVerifier_suggestCorrection ''a@gmal.com'' = Some ''a@gmail.com'' \<and>
   EmailVerifier_suggestCorrection ''a@yahoo.cm'' = Some ''a@yahoo.com'' \<and>
   EmailVerifier_suggestCorrection ''a@example.org'' = None"
  by code_simp

section \<open>The bulk worker\<close>

lemma process_email_counts:
  assumes "validCount cs + invalidCount cs = processed cs"
    and "process_email run cs = (thrown, cs', written)"
  shows "validCount cs' + invalidCount cs' = processed cs'"
  using assms
  by (auto simp: process_email_def email_catch_def Let_def
      split: sum.splits option.splits if_splits)

lemma process_emails_counts:
  assumes "validCount cs + invalidCount cs = processed cs"
    and "\<forall>j \<in> set trace. validEmails j + invalidEmails j = processedEmails j"
    and "process_emails rs cs job trace = (out, cs', job', trace')"
  shows "validCount cs' + invalidCount cs' = processed cs' \<and>
         (\<forall>j \<in> set trace'. validEmails j + invalidEmails j = processedEmails j)"
  using assms
proof (induction rs arbitrary: cs job trace)
  case Nil
  then show ?case by simp
next
  case (Cons run rest)
  obtain thrown cs1 written where s: "process_email run cs = (thrown, cs1, written)"
    by (cases "process_email run cs") auto
  have c1: "validCount cs1 + invalidCount cs1 = processed cs1"
    using Cons.prems(1) s by (rule process_email_counts)
  show ?case
  proof (cases thrown)
    case (Some e)
    then show ?thesis using Cons.prems(2,3) s c1 by simp
  next
    case None
    show ?thesis
    proof (cases written)
      case True
      have t: "\<forall>j \<in> set (trace @ [write_counters cs1 job]).
                 validEmails j + invalidEmails j = processedEmails j"
        using Cons.prems(2) c1 by (auto simp: write_counters_def)
      have "process_emails rest cs1 (write_counters cs1 job) (trace @ [write_counters cs1 job])
              = (out, cs', job', trace')"
        using Cons.prems(3) s None True by simp
      then show ?thesis using Cons.IH [OF c1 t] by simp
    next
      case False
      have "process_emails rest cs1 job trace = (out, cs', job', trace')"
        using Cons.prems(3) s None False by simp
      then show ?thesis using Cons.IH [OF c1 Cons.prems(2)] by simp
    qed
  qed
qed

lemma job_catch_counts:
  assumes "validCount cs + invalidCount cs = processed cs"
    and "\<forall>j \<in> set trace. validEmails j + invalidEmails j = processedEmails j"
  shows "\<forall>j \<in> set (snd (job_catch jr e cs job trace)).
           validEmails j + invalidEmails j = processedEmails j"
  using assms by (auto simp: job_catch_def write_counters_def split: option.splits)

lemma bulk_process_counts:
  assumes "validEmails job + invalidEmails job = processedEmails job"
  shows "\<forall>j \<in> set (snd (bulk_process jr job)).
           validEmails j + invalidEmails j = processedEmails j"
proof (cases "startUpdate jr")
  case (Some e)
  let ?cs0 = "\<lparr>processed = 0, validCount = 0, invalidCount = 0\<rparr>"
  have c0: "validCount ?cs0 + invalidCount ?cs0 = processed ?cs0" by simp
  have t0: "\<forall>j \<in> set [job]. validEmails j + invalidEmails j = processedEmails j"
    using assms by simp
  have "bulk_process jr job = job_catch jr e ?cs0 job [job]"
    by (simp add: bulk_process_def Let_def Some)
  then show ?thesis using job_catch_counts [OF c0 t0, of jr e job] by simp
next
  case None
  let ?cs0 = "\<lparr>processed = 0, validCount = 0, invalidCount = 0\<rparr>"
  let ?job1 = "job\<lparr>status := processing\<rparr>"
  obtain out cs job2 trace where
    p: "process_emails (runs jr) ?cs0 ?job1 [job, ?job1] = (out, cs, job2, trace)"
    using prod_cases4 by blast
  have c0: "validCount ?cs0 + invalidCount ?cs0 = processed ?cs0" by simp
  have t0: "\<forall>j \<in> set [job, ?job1]. validEmails j + invalidEmails j = processedEmails j"
    using assms by simp
  have inv: "validCount cs + invalidCount cs = processed cs"
    "\<forall>j \<in> set trace. validEmails j + invalidEmails j = processedEmails j"
    using process_emails_counts [OF c0 t0 p] by blast+
  let ?job3 = "(write_counters cs job2)\<lparr>status := completed\<rparr>"
  have inv3: "\<forall>j \<in> set (trace @ [?job3]). validEmails j + invalidEmails j = processedEmails j"
    using inv by (auto simp: write_counters_def)
  show ?thesis
  proof (cases out)
    case (Inl e)
    have "bulk_process jr job = job_catch jr e cs job2 trace"
      by (simp add: bulk_process_def Let_def None p Inl)
    then show ?thesis using job_catch_counts [OF inv, of jr e job2] by simp
  next
    case (Inr u)
    show ?thesis
    proof (cases "completeUpdate jr")
      case (Some e)
      have "bulk_process jr job = job_catch jr e cs job2 trace"
        by (simp add: bulk_process_def Let_def None p Inr Some)
      then show ?thesis using job_catch_counts [OF inv, of jr e job2] by simp
    next
      case cNone: None
      show ?thesis
      proof (cases "notifyUser jr \<and> userLookup jr \<noteq> None")
        case True
        then obtain e where e: "userLookup jr = Some e" by auto
        have "bulk_process jr job = job_catch jr e cs ?job3 (trace @ [?job3])"
          using True by (simp add: bulk_process_def Let_def None p Inr cNone e)
        then show ?thesis using job_catch_counts [OF inv(1) inv3, of jr e ?job3] by simp
      next
        case False
        have "snd (bulk_process jr job) = trace @ [?job3]"
          using False by (auto simp: bulk_process_def Let_def None p Inr cNone)
        then show ?thesis using inv3 by simp
      qed
    qed
  qed
qed

text \<open>
  C7. A batch of one address: \<open>verify\<close> answers, the write of the log row is rejected, the
  write of the failure row succeeds, and the lookup of the user for the notification is
  rejected. The address is counted twice, so the stored document says \<open>processed = 2\<close>
  for \<open>total = 1\<close>, and the status goes from \<open>completed\<close> to \<open>failed\<close>.
\<close>

theorem C7_double_count_and_failed_after_completed:
  "bulk_process
     \<lparr>startUpdate = None,
      runs = [\<lparr>verified = Inr True, logCreate = Some (Error ''connection reset''),
               periodicUpdate = None, failureLogCreate = None\<rparr>],
      completeUpdate = None, notifyUser = True,
      userLookup = Some (Error ''connection reset''), failedUpdate = None\<rparr>
     (submitted_job 1) =
   (Inl (Error ''connection reset''),
    [\<lparr>totalEmails = 1, processedEmails = 0, validEmails = 0, invalidEmails = 0,
      status = queued, job_error = None\<rparr>,
     \<lparr>totalEmails = 1, processedEmails = 0, validEmails = 0, invalidEmails = 0,
      status = processing, job_error = None\<rparr>,
     \<lparr>totalEmails = 1, processedEmails = 2, validEmails = 1, invalidEmails = 1,
      status = completed, job_error = None\<rparr>,
     \<lparr>totalEmails = 1, processedEmails = 2, validEmails = 1, invalidEmails = 1,
      status = failed, job_error = Some ''connection reset''\<rparr>])"
  by (simp add: bulk_process_def submitted_job_def job_catch_def process_email_def
      email_catch_def write_counters_def Let_def)

end
